theory Spec2Isabelle
  imports Main
begin

section \<open>Paths (the part of pathlib that the backend uses)\<close>

text \<open>
  The backend runs on POSIX paths (its default root is \<^verbatim>\<open>/opt/UP2You\<close>). A pure POSIX
  path is an anchor (the empty string, \<^verbatim>\<open>/\<close> or \<^verbatim>\<open>//\<close>) and the list of its
  components. \<^verbatim>\<open>Path(s)\<close> splits the anchor off, splits the rest at every slash and
  drops the empty components and the components \<^verbatim>\<open>.\<close>.
\<close>

datatype Path = Path (anchor: string) (parts: "string list")

fun split_slash :: "string \<Rightarrow> string list" where
  "split_slash [] = [[]]"
| "split_slash (c # cs) =
     (if c = CHR ''/'' then [] # split_slash cs
      else (case split_slash cs of w # ws \<Rightarrow> (c # w) # ws | [] \<Rightarrow> [[c]]))"

fun splitroot :: "string \<Rightarrow> string \<times> string" where
  "splitroot [] = ([], [])"
| "splitroot (c1 # p1) =
     (if c1 \<noteq> CHR ''/'' then ([], c1 # p1)
      else (case p1 of
              [] \<Rightarrow> (''/'', [])
            | c2 # p2 \<Rightarrow>
                if c2 \<noteq> CHR ''/'' \<or> (case p2 of [] \<Rightarrow> False | c3 # _ \<Rightarrow> c3 = CHR ''/'')
                then (''/'', p1)
                else (''//'', p2)))"

definition PurePath :: "string \<Rightarrow> Path" where
  "PurePath s =
     (case splitroot s of
        (root, rel) \<Rightarrow> Path root (filter (\<lambda>x. x \<noteq> [] \<and> x \<noteq> ''.'') (split_slash rel)))"

fun join_slash :: "string list \<Rightarrow> string" where
  "join_slash [] = []"
| "join_slash [x] = x"
| "join_slash (x # y # ys) = x @ ''/'' @ join_slash (y # ys)"

definition str_path :: "Path \<Rightarrow> string" where
  "str_path p =
     (if anchor p = [] \<and> parts p = [] then ''.'' else anchor p @ join_slash (parts p))"

definition is_absolute :: "Path \<Rightarrow> bool" where
  "is_absolute p = (anchor p \<noteq> [])"

text \<open>The operator \<^verbatim>\<open>/\<close> of pathlib: an absolute right operand replaces the left one.\<close>

definition joinpath :: "Path \<Rightarrow> Path \<Rightarrow> Path" where
  "joinpath a b = (if is_absolute b then b else Path (anchor a) (parts a @ parts b))"

definition parent :: "Path \<Rightarrow> Path" where
  "parent p = Path (anchor p) (butlast (parts p))"

section \<open>Configuration (config.py)\<close>

record Settings =
  up2you_repo_path :: Path
  python_executable :: string
  default_inference_script :: string
  default_base_model_path :: string
  default_segment_model_name :: string

text \<open>
  Python's \<^verbatim>\<open>x or d\<close> on an optional string: \<^verbatim>\<open>None\<close> and the empty string are both
  falsy, so both give \<^verbatim>\<open>d\<close>.
\<close>

definition py_or :: "string option \<Rightarrow> string \<Rightarrow> string" where
  "py_or x d = (case x of None \<Rightarrow> d | Some s \<Rightarrow> if s = [] then d else s)"

definition getenv :: "(string \<rightharpoonup> string) \<Rightarrow> string \<Rightarrow> string \<Rightarrow> string" where
  "getenv env k d = (case env k of None \<Rightarrow> d | Some v \<Rightarrow> v)"

text \<open>\<^verbatim>\<open>Settings.__init__\<close>, with the process environment as a map.\<close>

definition Settings_init ::
  "(string \<rightharpoonup> string) \<Rightarrow> string option \<Rightarrow> string option \<Rightarrow> string option \<Rightarrow>
   string option \<Rightarrow> string option \<Rightarrow> Settings" where
  "Settings_init env repo exe script base seg =
     \<lparr> up2you_repo_path = PurePath (py_or repo (getenv env ''UP2YOU_REPO_PATH'' ''/opt/UP2You'')),
       python_executable = py_or exe (getenv env ''PYTHON_EXECUTABLE'' ''python''),
       default_inference_script =
         py_or script (getenv env ''UP2YOU_INFERENCE_SCRIPT'' ''inference_low_gpu.py''),
       default_base_model_path =
         py_or base (getenv env ''UP2YOU_BASE_MODEL_PATH'' ''stabilityai/stable-diffusion-2-1-base''),
       default_segment_model_name =
         py_or seg (getenv env ''UP2YOU_SEGMENT_MODEL_NAME'' ''ZhengPeng7/BiRefNet'') \<rparr>"

text \<open>The module-level \<^verbatim>\<open>settings = Settings()\<close> in a process with none of the variables set.\<close>

definition settings0 :: Settings where
  "settings0 = Settings_init Map.empty None None None None None"

definition resolve_path :: "Settings \<Rightarrow> string \<Rightarrow> Path" where
  "resolve_path st v =
     (let candidate = PurePath v
      in if is_absolute candidate then candidate
         else joinpath (up2you_repo_path st) candidate)"

definition inference_script_path :: "Settings \<Rightarrow> string option \<Rightarrow> Path" where
  "inference_script_path st script_name =
     (let script = py_or script_name (default_inference_script st)
      in resolve_path st script)"

section \<open>Requests and the command line (models.py, up2you\_runner.py)\<close>

record JobRequest =
  data_dir :: string
  output_dir :: string
  base_model_path :: "string option"
  segment_model_name :: "string option"
  inference_script :: "string option"
  extra_args :: "string list"

definition JobManager_resolve_path :: "Settings \<Rightarrow> string \<Rightarrow> Path" where
  "JobManager_resolve_path st v = resolve_path st v"

text \<open>
  \<^verbatim>\<open>_build_command\<close>: the list is built by successive \<^verbatim>\<open>extend\<close> calls, the last one
  only when \<^verbatim>\<open>extra_args\<close> is a non-empty list.
\<close>

definition build_command :: "Settings \<Rightarrow> JobRequest \<Rightarrow> string list" where
  "build_command st payload =
     (let script_path = inference_script_path st (inference_script payload);
          command = [python_executable st, str_path script_path];
          command = command @ [''--data_dir'', str_path (JobManager_resolve_path st (data_dir payload))];
          command = command @ [''--output_dir'', str_path (JobManager_resolve_path st (output_dir payload))];
          base_model = py_or (base_model_path payload) (default_base_model_path st);
          command = command @ [''--base_model_path'', base_model];
          segment_model = py_or (segment_model_name payload) (default_segment_model_name st);
          command = command @ [''--segment_model_name'', segment_model];
          command = (if extra_args payload \<noteq> [] then command @ extra_args payload else command)
      in command)"

text \<open>A request and its variants, used to run the definitions on concrete inputs.\<close>

definition request0 :: JobRequest where
  "request0 =
     \<lparr> data_dir = ''photos'', output_dir = ''/srv/out'', base_model_path = None,
       segment_model_name = None, inference_script = None, extra_args = [''--x'', ''1''] \<rparr>"

section \<open>Job records (models.py)\<close>

datatype JobState = QUEUED | RUNNING | SUCCEEDED | FAILED

type_synonym datetime = nat

record JobStatus =
  job_id :: string
  state :: JobState
  command :: "string list"
  created_at :: datetime
  started_at :: "datetime option"
  completed_at :: "datetime option"
  exit_code :: "int option"
  log_path :: "string option"
  message :: "string option"

record JobCreatedResponse =
  ack_job_id :: string
  ack_state :: JobState
  ack_command :: "string list"
  ack_created_at :: datetime

section \<open>The world outside one job\<close>

text \<open>
  What the outside world answers to the calls made on behalf of one job: the identifier
  that \<^verbatim>\<open>uuid4\<close> returns, the clock at the three calls of \<^verbatim>\<open>utcnow\<close>, and for each
  call into the operating system either nothing (the call returns) or the \<^verbatim>\<open>repr\<close> of
  the exception it raises. \<^verbatim>\<open>wait\<close> returns the exit code of the process. Closing the
  log file, to which the Python process itself writes nothing, is taken to succeed.
\<close>

record job_env =
  uuid4 :: string
  now_created :: datetime
  now_started :: datetime
  now_finished :: datetime
  mkdir :: "Path \<Rightarrow> string option"
  open_w :: "Path \<Rightarrow> string option"
  popen :: "string list \<Rightarrow> string \<Rightarrow> string option"
  wait :: "string + int"

datatype exn = Raised string | KeyError string

section \<open>Threads and the shared store (up2you\_runner.py, routes.py)\<close>

text \<open>
  \<^verbatim>\<open>JobStatus\<close> objects live on a heap and are handled through references (indices
  into the heap); the dictionary \<^verbatim>\<open>_jobs\<close> maps a job identifier to a reference. The
  lock records the thread that holds it. Each thread is at a program point named after
  the source line it is about to execute, and carries the local variables that are live
  there: \<open>Create\<close> and \<open>Run\<close> points are lines of \<^verbatim>\<open>create_job\<close> and \<^verbatim>\<open>_run_job\<close>,
  \<open>Get53\<close> is line 53 of \<^verbatim>\<open>get_status\<close> and \<open>Get34\<close> is line 34 of the route
  \<^verbatim>\<open>get_job\<close>. A reference held by a thread always points into the heap (this is part
  of the invariant proved below), so reading through it is a list lookup.
\<close>

type_synonym ref = nat

datatype creator_pc =
    Create26
  | Create38 string "string list" datetime ref
  | Create43 string "string list" datetime ref
  | CreateDone JobCreatedResponse

datatype supervisor_pc =
    Run83
  | Run87 datetime Path
  | Run89 datetime Path ref
  | Run90 datetime Path ref
  | Run91 Path ref
  | Run92 Path ref
  | Run94 Path
  | Run109 int string
  | Run112 int string datetime ref
  | Run113 int string datetime ref
  | Run114 int string ref
  | Run115 string ref
  | Run116 ref
  | RunDone
  | RunRaised exn

datatype reader_pc =
    Get53
  | Get34 "ref option"
  | GetDone "JobStatus option"

datatype thread =
    Creator JobRequest job_env creator_pc
  | Supervisor string JobRequest "string list" job_env supervisor_pc
  | Reader string reader_pc

record config =
  heap :: "JobStatus list"
  jobs :: "string \<rightharpoonup> ref"
  lock :: "nat option"
  threads :: "thread list"

definition init :: config where
  "init = \<lparr> heap = [], jobs = Map.empty, lock = None, threads = [] \<rparr>"

definition set_pc :: "nat \<Rightarrow> thread \<Rightarrow> config \<Rightarrow> config" where
  "set_pc i t c = c\<lparr>threads := (threads c)[i := t]\<rparr>"

definition update_record :: "ref \<Rightarrow> (JobStatus \<Rightarrow> JobStatus) \<Rightarrow> config \<Rightarrow> config" where
  "update_record a f c = c\<lparr>heap := (heap c)[a := f (heap c ! a)]\<rparr>"

text \<open>
  \<^verbatim>\<open>create_job\<close>. Lines 26 to 36 are one step: until line 36 the new record can be
  reached from this thread only, and the step waits for the lock. Line 41 starts the
  supervisor thread. Lines 43 to 48 build the acknowledgement, reading \<^verbatim>\<open>status.state\<close>
  through the reference at that moment.
\<close>

fun create_job_step :: "Settings \<Rightarrow> nat \<Rightarrow> JobRequest \<Rightarrow> job_env \<Rightarrow> creator_pc \<Rightarrow> config \<Rightarrow> config" where
  "create_job_step st i payload env Create26 c =
     (if lock c \<noteq> None then c
      else
        let jid = uuid4 env;
            cmd = build_command st payload;
            created = now_created env;
            status = length (heap c)
        in c\<lparr> heap := heap c @
                 [\<lparr> job_id = jid, state = QUEUED, command = cmd, created_at = created,
                    started_at = None, completed_at = None, exit_code = None, log_path = None,
                    message = None \<rparr>],
               jobs := (jobs c)(jid \<mapsto> status),
               threads := (threads c)[i := Creator payload env (Create38 jid cmd created status)] \<rparr>)"
| "create_job_step st i payload env (Create38 jid cmd created status) c =
     c\<lparr> threads := (threads c)[i := Creator payload env (Create43 jid cmd created status)]
                     @ [Supervisor jid payload cmd env Run83] \<rparr>"
| "create_job_step st i payload env (Create43 jid cmd created status) c =
     set_pc i (Creator payload env (CreateDone
        \<lparr> ack_job_id = jid, ack_state = state (heap c ! status), ack_command = cmd,
          ack_created_at = created \<rparr>)) c"
| "create_job_step st i payload env (CreateDone r) c = c"

text \<open>The \<^verbatim>\<open>try\<close> statement of \<^verbatim>\<open>_run_job\<close> (lines 94 to 107): exit code and message.\<close>

definition crashed :: "string \<Rightarrow> int \<times> string" where
  "crashed r = (- 1, ''Job crashed with error: '' @ r)"

definition try_block :: "Settings \<Rightarrow> job_env \<Rightarrow> Path \<Rightarrow> string list \<Rightarrow> int \<times> string" where
  "try_block st env lpath cmd =
     (case open_w env lpath of
        Some r \<Rightarrow> crashed r
      | None \<Rightarrow>
          (case popen env cmd (str_path (up2you_repo_path st)) of
             Some r \<Rightarrow> crashed r
           | None \<Rightarrow>
               (case wait env of
                  Inl r \<Rightarrow> crashed r
                | Inr code \<Rightarrow>
                    (code,
                     if code = 0 then ''Job finished successfully'' else ''Job failed''))))"

definition log_path_of :: "Settings \<Rightarrow> JobRequest \<Rightarrow> string \<Rightarrow> Path" where
  "log_path_of st payload jid =
     joinpath (JobManager_resolve_path st (output_dir payload)) (PurePath (jid @ ''.log''))"

text \<open>
  \<^verbatim>\<open>_run_job\<close>, one step per statement. Lines 83 to 85 run outside the \<^verbatim>\<open>try\<close>
  statement: an exception of \<^verbatim>\<open>mkdir\<close> ends the thread. Entering a \<^verbatim>\<open>with self._lock\<close>
  block waits until the lock is free; a missing key raises \<^verbatim>\<open>KeyError\<close>, which leaves
  the block (releasing the lock) and ends the thread.
\<close>

fun run_job_step ::
  "Settings \<Rightarrow> nat \<Rightarrow> string \<Rightarrow> JobRequest \<Rightarrow> string list \<Rightarrow> job_env \<Rightarrow> supervisor_pc \<Rightarrow> config \<Rightarrow> config" where
  "run_job_step st i jid payload cmd env Run83 c =
     (let start_time = now_started env;
          lpath = log_path_of st payload jid
      in case mkdir env (parent lpath) of
           Some r \<Rightarrow> set_pc i (Supervisor jid payload cmd env (RunRaised (Raised r))) c
         | None \<Rightarrow> set_pc i (Supervisor jid payload cmd env (Run87 start_time lpath)) c)"
| "run_job_step st i jid payload cmd env (Run87 start_time lpath) c =
     (if lock c \<noteq> None then c
      else case jobs c jid of
             None \<Rightarrow> set_pc i (Supervisor jid payload cmd env (RunRaised (KeyError jid))) c
           | Some status \<Rightarrow>
               set_pc i (Supervisor jid payload cmd env (Run89 start_time lpath status))
                 (c\<lparr>lock := Some i\<rparr>))"
| "run_job_step st i jid payload cmd env (Run89 start_time lpath status) c =
     set_pc i (Supervisor jid payload cmd env (Run90 start_time lpath status))
       (update_record status (\<lambda>r. r\<lparr>state := RUNNING\<rparr>) c)"
| "run_job_step st i jid payload cmd env (Run90 start_time lpath status) c =
     set_pc i (Supervisor jid payload cmd env (Run91 lpath status))
       (update_record status (\<lambda>r. r\<lparr>started_at := Some start_time\<rparr>) c)"
| "run_job_step st i jid payload cmd env (Run91 lpath status) c =
     set_pc i (Supervisor jid payload cmd env (Run92 lpath status))
       (update_record status (\<lambda>r. r\<lparr>log_path := Some (str_path lpath)\<rparr>) c)"
| "run_job_step st i jid payload cmd env (Run92 lpath status) c =
     set_pc i (Supervisor jid payload cmd env (Run94 lpath))
       (c\<lparr>jobs := (jobs c)(jid \<mapsto> status), lock := None\<rparr>)"
| "run_job_step st i jid payload cmd env (Run94 lpath) c =
     (case try_block st env lpath cmd of
        (code, msg) \<Rightarrow>
          set_pc i (Supervisor jid payload cmd env (Run109 code msg)) c)"
| "run_job_step st i jid payload cmd env (Run109 code msg) c =
     (let finished_at = now_finished env
      in if lock c \<noteq> None then c
         else case jobs c jid of
                None \<Rightarrow> set_pc i (Supervisor jid payload cmd env (RunRaised (KeyError jid))) c
              | Some status \<Rightarrow>
                  set_pc i (Supervisor jid payload cmd env
                              (Run112 code msg finished_at status))
                    (c\<lparr>lock := Some i\<rparr>))"
| "run_job_step st i jid payload cmd env (Run112 code msg finished_at status) c =
     set_pc i (Supervisor jid payload cmd env (Run113 code msg finished_at status))
       (update_record status (\<lambda>r. r\<lparr>state := (if code = 0 then SUCCEEDED else FAILED)\<rparr>) c)"
| "run_job_step st i jid payload cmd env (Run113 code msg finished_at status) c =
     set_pc i (Supervisor jid payload cmd env (Run114 code msg status))
       (update_record status (\<lambda>r. r\<lparr>completed_at := Some finished_at\<rparr>) c)"
| "run_job_step st i jid payload cmd env (Run114 code msg status) c =
     set_pc i (Supervisor jid payload cmd env (Run115 msg status))
       (update_record status (\<lambda>r. r\<lparr>exit_code := Some code\<rparr>) c)"
| "run_job_step st i jid payload cmd env (Run115 msg status) c =
     set_pc i (Supervisor jid payload cmd env (Run116 status))
       (update_record status (\<lambda>r. r\<lparr>message := Some msg\<rparr>) c)"
| "run_job_step st i jid payload cmd env (Run116 status) c =
     set_pc i (Supervisor jid payload cmd env RunDone)
       (c\<lparr>jobs := (jobs c)(jid \<mapsto> status), lock := None\<rparr>)"
| "run_job_step st i jid payload cmd env RunDone c = c"
| "run_job_step st i jid payload cmd env (RunRaised e) c = c"

text \<open>
  The route \<^verbatim>\<open>get_job\<close>: \<^verbatim>\<open>get_status\<close> looks the identifier up under the lock and
  returns the reference found (or \<^verbatim>\<open>None\<close>); the route then answers not-found, or hands
  the object to the framework, which reads its fields. The read is one step here.
\<close>

fun get_job_step :: "nat \<Rightarrow> string \<Rightarrow> reader_pc \<Rightarrow> config \<Rightarrow> config" where
  "get_job_step i jid Get53 c =
     (if lock c \<noteq> None then c else set_pc i (Reader jid (Get34 (jobs c jid))) c)"
| "get_job_step i jid (Get34 status_record) c =
     (case status_record of
        None \<Rightarrow> set_pc i (Reader jid (GetDone None)) c
      | Some a \<Rightarrow> set_pc i (Reader jid (GetDone (Some (heap c ! a)))) c)"
| "get_job_step i jid (GetDone r) c = c"

text \<open>
  The system moves by events: a request to create a job arrives (a new thread enters
  \<^verbatim>\<open>create_job\<close>), a status query arrives (a new thread enters \<^verbatim>\<open>get_job\<close>), or the
  scheduler lets thread \<open>i\<close> run its next step. A thread that waits for the lock, or has
  finished, does not move.
\<close>

datatype event = Submit JobRequest job_env | Query string | Sched nat

fun step :: "Settings \<Rightarrow> event \<Rightarrow> config \<Rightarrow> config" where
  "step st (Submit payload env) c = c\<lparr>threads := threads c @ [Creator payload env Create26]\<rparr>"
| "step st (Query jid) c = c\<lparr>threads := threads c @ [Reader jid Get53]\<rparr>"
| "step st (Sched i) c =
     (if i < length (threads c) then
        (case threads c ! i of
           Creator payload env pc \<Rightarrow> create_job_step st i payload env pc c
         | Supervisor jid payload cmd env pc \<Rightarrow> run_job_step st i jid payload cmd env pc c
         | Reader jid pc \<Rightarrow> get_job_step i jid pc c)
      else c)"

fun exec :: "Settings \<Rightarrow> event list \<Rightarrow> config \<Rightarrow> config" where
  "exec st [] c = c"
| "exec st (e # es) c = exec st es (step st e c)"

text \<open>
  \<^verbatim>\<open>uuid4\<close> is taken to return an identifier that is not a key of the dictionary yet:
  an event is fresh when it is not the first step of \<^verbatim>\<open>create_job\<close> with an identifier
  already in use.
\<close>

fun fresh :: "event \<Rightarrow> config \<Rightarrow> bool" where
  "fresh (Sched i) c =
     (if i < length (threads c) then
        (case threads c ! i of
           Creator payload env Create26 \<Rightarrow> jobs c (uuid4 env) = None
         | _ \<Rightarrow> True)
      else True)"
| "fresh _ c = True"

fun uuids_fresh :: "Settings \<Rightarrow> event list \<Rightarrow> config \<Rightarrow> bool" where
  "uuids_fresh st [] c = True"
| "uuids_fresh st (e # es) c = (fresh e c \<and> uuids_fresh st es (step st e c))"

section \<open>Invariant of the store\<close>

text \<open>
  The record of a job as \<^verbatim>\<open>create_job\<close> builds it, as it is after the first locked
  block of \<^verbatim>\<open>_run_job\<close>, and as it is after the second one.
\<close>

definition queued_record :: "string \<Rightarrow> string list \<Rightarrow> job_env \<Rightarrow> JobStatus" where
  "queued_record jid cmd env =
     \<lparr> job_id = jid, state = QUEUED, command = cmd, created_at = now_created env,
       started_at = None, completed_at = None, exit_code = None, log_path = None,
       message = None \<rparr>"

definition running_record ::
  "Settings \<Rightarrow> string \<Rightarrow> JobRequest \<Rightarrow> string list \<Rightarrow> job_env \<Rightarrow> JobStatus" where
  "running_record st jid payload cmd env =
     (queued_record jid cmd env)
       \<lparr> state := RUNNING, started_at := Some (now_started env),
         log_path := Some (str_path (log_path_of st payload jid)) \<rparr>"

definition outcome :: "Settings \<Rightarrow> string \<Rightarrow> JobRequest \<Rightarrow> string list \<Rightarrow> job_env \<Rightarrow> int \<times> string" where
  "outcome st jid payload cmd env = try_block st env (log_path_of st payload jid) cmd"

definition final_record ::
  "Settings \<Rightarrow> string \<Rightarrow> JobRequest \<Rightarrow> string list \<Rightarrow> job_env \<Rightarrow> JobStatus" where
  "final_record st jid payload cmd env =
     (running_record st jid payload cmd env)
       \<lparr> state := (if fst (outcome st jid payload cmd env) = 0 then SUCCEEDED else FAILED),
         completed_at := Some (now_finished env),
         exit_code := Some (fst (outcome st jid payload cmd env)),
         message := Some (snd (outcome st jid payload cmd env)) \<rparr>"

text \<open>The record that a supervisor at a given program point has made of its job so far.\<close>

fun record_at ::
  "Settings \<Rightarrow> string \<Rightarrow> JobRequest \<Rightarrow> string list \<Rightarrow> job_env \<Rightarrow> supervisor_pc \<Rightarrow> JobStatus" where
  "record_at st jid p cmd env (Run90 s l x) = (queued_record jid cmd env)\<lparr>state := RUNNING\<rparr>"
| "record_at st jid p cmd env (Run91 l x) =
     (queued_record jid cmd env)\<lparr>state := RUNNING, started_at := Some (now_started env)\<rparr>"
| "record_at st jid p cmd env (Run92 l x) = running_record st jid p cmd env"
| "record_at st jid p cmd env (Run94 l) = running_record st jid p cmd env"
| "record_at st jid p cmd env (Run109 k m) = running_record st jid p cmd env"
| "record_at st jid p cmd env (Run112 k m f x) = running_record st jid p cmd env"
| "record_at st jid p cmd env (Run113 k m f x) =
     (running_record st jid p cmd env)
       \<lparr>state := (if fst (outcome st jid p cmd env) = 0 then SUCCEEDED else FAILED)\<rparr>"
| "record_at st jid p cmd env (Run114 k m x) =
     (running_record st jid p cmd env)
       \<lparr>state := (if fst (outcome st jid p cmd env) = 0 then SUCCEEDED else FAILED),
        completed_at := Some (now_finished env)\<rparr>"
| "record_at st jid p cmd env (Run115 m x) =
     (running_record st jid p cmd env)
       \<lparr>state := (if fst (outcome st jid p cmd env) = 0 then SUCCEEDED else FAILED),
        completed_at := Some (now_finished env),
        exit_code := Some (fst (outcome st jid p cmd env))\<rparr>"
| "record_at st jid p cmd env (Run116 x) = final_record st jid p cmd env"
| "record_at st jid p cmd env RunDone = final_record st jid p cmd env"
| "record_at st jid p cmd env _ = queued_record jid cmd env"

text \<open>The local variables of a supervisor hold what the lines before its program point computed.\<close>

fun locals_ok ::
  "Settings \<Rightarrow> string \<Rightarrow> JobRequest \<Rightarrow> string list \<Rightarrow> job_env \<Rightarrow> ref \<Rightarrow> supervisor_pc \<Rightarrow> bool" where
  "locals_ok st jid p cmd env a Run83 = True"
| "locals_ok st jid p cmd env a (Run87 s l) = (s = now_started env \<and> l = log_path_of st p jid)"
| "locals_ok st jid p cmd env a (Run89 s l x) =
     (s = now_started env \<and> l = log_path_of st p jid \<and> x = a)"
| "locals_ok st jid p cmd env a (Run90 s l x) =
     (s = now_started env \<and> l = log_path_of st p jid \<and> x = a)"
| "locals_ok st jid p cmd env a (Run91 l x) = (l = log_path_of st p jid \<and> x = a)"
| "locals_ok st jid p cmd env a (Run92 l x) = (l = log_path_of st p jid \<and> x = a)"
| "locals_ok st jid p cmd env a (Run94 l) = (l = log_path_of st p jid)"
| "locals_ok st jid p cmd env a (Run109 k m) = ((k, m) = outcome st jid p cmd env)"
| "locals_ok st jid p cmd env a (Run112 k m f x) =
     ((k, m) = outcome st jid p cmd env \<and> f = now_finished env \<and> x = a)"
| "locals_ok st jid p cmd env a (Run113 k m f x) =
     ((k, m) = outcome st jid p cmd env \<and> f = now_finished env \<and> x = a)"
| "locals_ok st jid p cmd env a (Run114 k m x) = ((k, m) = outcome st jid p cmd env \<and> x = a)"
| "locals_ok st jid p cmd env a (Run115 m x) = (m = snd (outcome st jid p cmd env) \<and> x = a)"
| "locals_ok st jid p cmd env a (Run116 x) = (x = a)"
| "locals_ok st jid p cmd env a RunDone = True"
| "locals_ok st jid p cmd env a (RunRaised e) = True"

text \<open>The reference a supervisor is working on while it is inside a locked block.\<close>

fun pc_status :: "supervisor_pc \<Rightarrow> ref option" where
  "pc_status (Run89 s l x) = Some x"
| "pc_status (Run90 s l x) = Some x"
| "pc_status (Run91 l x) = Some x"
| "pc_status (Run92 l x) = Some x"
| "pc_status (Run112 k m f x) = Some x"
| "pc_status (Run113 k m f x) = Some x"
| "pc_status (Run114 k m x) = Some x"
| "pc_status (Run115 m x) = Some x"
| "pc_status (Run116 x) = Some x"
| "pc_status _ = None"

fun status_of :: "thread \<Rightarrow> ref option" where
  "status_of (Supervisor jid p cmd env pc) = pc_status pc"
| "status_of _ = None"

text \<open>
  A record is in the middle of an update when the thread that holds the lock is a
  supervisor working on it.
\<close>

definition mid_update :: "config \<Rightarrow> ref \<Rightarrow> bool" where
  "mid_update c a =
     (case lock c of
        None \<Rightarrow> False
      | Some i \<Rightarrow> i < length (threads c) \<and> status_of (threads c ! i) = Some a)"

text \<open>A record on which every transition made so far has been applied as a whole.\<close>

definition whole :: "JobStatus \<Rightarrow> bool" where
  "whole r =
     ((state r = QUEUED \<and> started_at r = None \<and> log_path r = None \<and> completed_at r = None
         \<and> exit_code r = None \<and> message r = None)
      \<or> (state r = RUNNING \<and> started_at r \<noteq> None \<and> log_path r \<noteq> None \<and> completed_at r = None
         \<and> exit_code r = None \<and> message r = None)
      \<or> ((state r = SUCCEEDED \<or> state r = FAILED) \<and> started_at r \<noteq> None \<and> log_path r \<noteq> None
         \<and> completed_at r \<noteq> None \<and> exit_code r \<noteq> None \<and> message r \<noteq> None
         \<and> (state r = SUCCEEDED) = (exit_code r = Some 0)))"

fun terminal :: "JobState \<Rightarrow> bool" where
  "terminal SUCCEEDED = True"
| "terminal FAILED = True"
| "terminal _ = False"

fun rank :: "JobState \<Rightarrow> nat" where
  "rank QUEUED = 0"
| "rank RUNNING = 1"
| "rank SUCCEEDED = 2"
| "rank FAILED = 2"

fun owned :: "thread \<Rightarrow> string option" where
  "owned (Creator p env (Create38 jid cmd created a)) = Some jid"
| "owned (Supervisor jid p cmd env pc) = Some jid"
| "owned _ = None"

fun thread_ok :: "Settings \<Rightarrow> config \<Rightarrow> nat \<Rightarrow> thread \<Rightarrow> bool" where
  "thread_ok st c i (Creator p env (Create38 jid cmd created a)) =
     (jobs c jid = Some a \<and> a < length (heap c) \<and> heap c ! a = queued_record jid cmd env)"
| "thread_ok st c i (Creator p env (Create43 jid cmd created a)) = (a < length (heap c))"
| "thread_ok st c i (Creator p env pc) = True"
| "thread_ok st c i (Supervisor jid p cmd env pc) =
     (case jobs c jid of
        None \<Rightarrow> False
      | Some a \<Rightarrow>
          a < length (heap c) \<and> heap c ! a = record_at st jid p cmd env pc
          \<and> locals_ok st jid p cmd env a pc
          \<and> ((pc_status pc \<noteq> None) = (lock c = Some i)))"
| "thread_ok st c i (Reader jid (Get34 (Some a))) = (a < length (heap c))"
| "thread_ok st c i (Reader jid pc) = True"

text \<open>No two threads are in charge of the same job identifier.\<close>

definition owners_distinct :: "thread list \<Rightarrow> bool" where
  "owners_distinct ts =
     (\<forall>i < length ts. \<forall>k < length ts.
        owned (ts ! i) \<noteq> None \<and> owned (ts ! i) = owned (ts ! k) \<longrightarrow> i = k)"

definition inv :: "Settings \<Rightarrow> config \<Rightarrow> bool" where
  "inv st c =
     ((\<forall>i < length (threads c). thread_ok st c i (threads c ! i))
      \<and> owners_distinct (threads c)
      \<and> (\<forall>i. lock c = Some i \<longrightarrow> i < length (threads c) \<and> status_of (threads c ! i) \<noteq> None)
      \<and> (\<forall>jid a. jobs c jid = Some a \<longrightarrow> a < length (heap c) \<and> job_id (heap c ! a) = jid)
      \<and> (\<forall>a < length (heap c). \<not> mid_update c a \<longrightarrow> whole (heap c ! a)))"

text \<open>How the state of a record may change in one step.\<close>

definition state_advance :: "JobStatus \<Rightarrow> JobStatus \<Rightarrow> bool" where
  "state_advance r r' =
     (rank (state r) \<le> rank (state r')
      \<and> (state r = QUEUED \<longrightarrow> state r' = QUEUED \<or> state r' = RUNNING)
      \<and> (terminal (state r) \<longrightarrow> state r' = state r))"

section \<open>Concrete runs\<close>

text \<open>
  One job in a world where every call into the operating system returns and the process
  exits with the given code, and the same world with a directory that cannot be created.
\<close>

definition env_exit :: "int \<Rightarrow> job_env" where
  "env_exit code =
     \<lparr> uuid4 = ''job-a'', now_created = 1, now_started = 2, now_finished = 3,
       mkdir = (\<lambda>_. None), open_w = (\<lambda>_. None), popen = (\<lambda>_ _. None), wait = Inr code \<rparr>"

definition env_mkdir_fails :: job_env where
  "env_mkdir_fails =
     \<lparr> uuid4 = ''job-a'', now_created = 1, now_started = 2, now_finished = 3,
       mkdir = (\<lambda>_. Some ''PermissionError()''), open_w = (\<lambda>_. None),
       popen = (\<lambda>_ _. None), wait = Inr 0 \<rparr>"

text \<open>The world in which the executable is missing: \<^verbatim>\<open>Popen\<close> raises.\<close>

definition env_popen_fails :: job_env where
  "env_popen_fails =
     \<lparr> uuid4 = ''job-a'', now_created = 1, now_started = 2, now_finished = 3,
       mkdir = (\<lambda>_. None), open_w = (\<lambda>_. None),
       popen = (\<lambda>_ _. Some ''FileNotFoundError()''), wait = Inr 0 \<rparr>"

text \<open>
  The request arrives, \<^verbatim>\<open>create_job\<close> runs lines 26 to 36 and starts the supervisor:
  thread 0 is the creator, about to build its acknowledgement, thread 1 the supervisor.
\<close>

definition submitted :: "job_env \<Rightarrow> event list" where
  "submitted env = [Submit request0 env, Sched 0, Sched 0]"

text \<open>The supervisor runs lines 83 to 92, then lines 94 to 111, then lines 112 to 116.\<close>

definition first_block :: "event list" where
  "first_block = [Sched 1, Sched 1, Sched 1, Sched 1, Sched 1, Sched 1]"

definition try_and_lock :: "event list" where
  "try_and_lock = [Sched 1, Sched 1]"

definition second_block :: "event list" where
  "second_block = [Sched 1, Sched 1, Sched 1, Sched 1, Sched 1]"

fun creator_pc_of :: "thread \<Rightarrow> creator_pc option" where
  "creator_pc_of (Creator p env pc) = Some pc"
| "creator_pc_of _ = None"

fun supervisor_pc_of :: "thread \<Rightarrow> supervisor_pc option" where
  "supervisor_pc_of (Supervisor jid p cmd env pc) = Some pc"
| "supervisor_pc_of _ = None"

fun reader_pc_of :: "thread \<Rightarrow> reader_pc option" where
  "reader_pc_of (Reader jid pc) = Some pc"
| "reader_pc_of _ = None"

section \<open>The command builder\<close>

lemma build_command_eq:
  "build_command st p =
     [python_executable st,
      str_path (resolve_path st (py_or (inference_script p) (default_inference_script st))),
      ''--data_dir'', str_path (resolve_path st (data_dir p)),
      ''--output_dir'', str_path (resolve_path st (output_dir p)),
      ''--base_model_path'', py_or (base_model_path p) (default_base_model_path st),
      ''--segment_model_name'', py_or (segment_model_name p) (default_segment_model_name st)]
     @ extra_args p"
  by (simp add: build_command_def inference_script_path_def JobManager_resolve_path_def Let_def)

lemma is_absolute_PurePath: "is_absolute (PurePath v) = (v \<noteq> [] \<and> hd v = CHR ''/'')"
  by (cases v rule: splitroot.cases)
     (auto simp: is_absolute_def PurePath_def split: list.splits)

text \<open>
  C1. For every request, \<^verbatim>\<open>_build_command\<close> returns exactly the executable, the resolved
  script path, the four named flags each followed by its value (resolved data directory,
  resolved output directory, base model, segmentation model), in this order, and then the
  request's extra arguments, unchanged and in the order given. Nothing else is in the list.
\<close>

theorem build_command_vector:
  "build_command st p =
     [python_executable st,
      str_path (inference_script_path st (inference_script p)),
      ''--data_dir'', str_path (resolve_path st (data_dir p)),
      ''--output_dir'', str_path (resolve_path st (output_dir p)),
      ''--base_model_path'', py_or (base_model_path p) (default_base_model_path st),
      ''--segment_model_name'', py_or (segment_model_name p) (default_segment_model_name st)]
     @ extra_args p"
  by (simp add: build_command_eq inference_script_path_def)

text \<open>
  C8. \<^verbatim>\<open>resolve_path\<close> returns the path of its input as it is when the input is absolute
  (it starts with a slash), and the path of its input joined under the configured root
  when it is relative: the root's anchor, the root's components, then the input's
  components. The data directory, the output directory and the inference script all go
  through this one function on their way into the command.
\<close>

theorem resolve_path_absolute_or_joined:
  "(v \<noteq> [] \<and> hd v = CHR ''/'' \<longrightarrow> resolve_path st v = PurePath v)
   \<and> (\<not> (v \<noteq> [] \<and> hd v = CHR ''/'') \<longrightarrow>
        resolve_path st v = joinpath (up2you_repo_path st) (PurePath v)
        \<and> resolve_path st v =
            Path (anchor (up2you_repo_path st)) (parts (up2you_repo_path st) @ parts (PurePath v)))
   \<and> inference_script_path st s = resolve_path st (py_or s (default_inference_script st))
   \<and> build_command st p ! 1 = str_path (inference_script_path st (inference_script p))
   \<and> build_command st p ! 3 = str_path (resolve_path st (data_dir p))
   \<and> build_command st p ! 5 = str_path (resolve_path st (output_dir p))"
proof -
  have abs: "v \<noteq> [] \<and> hd v = CHR ''/'' \<longrightarrow> resolve_path st v = PurePath v"
    by (simp add: resolve_path_def Let_def is_absolute_PurePath)
  have rel: "\<not> (v \<noteq> [] \<and> hd v = CHR ''/'') \<longrightarrow>
        resolve_path st v = joinpath (up2you_repo_path st) (PurePath v)
        \<and> resolve_path st v =
            Path (anchor (up2you_repo_path st)) (parts (up2you_repo_path st) @ parts (PurePath v))"
  proof
    assume "\<not> (v \<noteq> [] \<and> hd v = CHR ''/'')"
    then have "\<not> is_absolute (PurePath v)"
      by (simp only: is_absolute_PurePath not_False_eq_True)
    then show "resolve_path st v = joinpath (up2you_repo_path st) (PurePath v)
        \<and> resolve_path st v =
            Path (anchor (up2you_repo_path st)) (parts (up2you_repo_path st) @ parts (PurePath v))"
      by (simp add: resolve_path_def Let_def joinpath_def)
  qed
  have scr: "inference_script_path st s = resolve_path st (py_or s (default_inference_script st))"
    by (simp add: inference_script_path_def)
  have pos: "build_command st p ! 1 = str_path (inference_script_path st (inference_script p))"
    "build_command st p ! 3 = str_path (resolve_path st (data_dir p))"
    "build_command st p ! 5 = str_path (resolve_path st (output_dir p))"
    by (simp_all add: build_command_eq inference_script_path_def)
  from abs rel scr pos show ?thesis by blast
qed

theorem resolve_path_absolute_or_joined_witness:
  "resolve_path settings0 ''/data/in'' = Path ''/'' [''data'', ''in'']
   \<and> resolve_path settings0 ''photos'' = Path ''/'' [''opt'', ''UP2You'', ''photos'']
   \<and> build_command settings0 request0 ! 3 = ''/opt/UP2You/photos''
   \<and> build_command settings0 request0 ! 5 = ''/srv/out''
   \<and> build_command settings0 request0 ! 1 = ''/opt/UP2You/inference_low_gpu.py''"
  using resolve_path_absolute_or_joined [of "''/data/in''" settings0 None request0]
    resolve_path_absolute_or_joined [of "''photos''" settings0 None request0]
  by (simp add: PurePath_def settings0_def Settings_init_def request0_def py_or_def getenv_def
      str_path_def inference_script_path_def resolve_path_def joinpath_def is_absolute_def)

text \<open>
  C9, as stated, fails: an override supplied as the empty string is not used. The base
  model supplied in this request is the empty string, and position 7 of the command holds
  the configured default.
\<close>

theorem override_empty_counterexample:
  "base_model_path (request0\<lparr>base_model_path := Some []\<rparr>) = Some []
   \<and> build_command settings0 (request0\<lparr>base_model_path := Some []\<rparr>) ! 7
       = ''stabilityai/stable-diffusion-2-1-base''
   \<and> build_command settings0 (request0\<lparr>base_model_path := Some []\<rparr>) ! 7
       \<noteq> the (base_model_path (request0\<lparr>base_model_path := Some []\<rparr>))"
  by (simp add: build_command_eq settings0_def Settings_init_def request0_def py_or_def getenv_def)

text \<open>
  C9, amended. Whenever a non-empty override is supplied for the base model or the
  segmentation model, the command holds exactly that value at position 7 or 9; whenever
  a non-empty script override is supplied, position 1 holds the string of its resolved
  path; whenever no override is supplied, the position holds the configured default (for
  the script, the string of the resolved default script).
\<close>

theorem override_or_default:
  "(base_model_path p = Some b \<and> b \<noteq> [] \<longrightarrow> build_command st p ! 7 = b)
   \<and> (base_model_path p = None \<longrightarrow> build_command st p ! 7 = default_base_model_path st)
   \<and> (segment_model_name p = Some g \<and> g \<noteq> [] \<longrightarrow> build_command st p ! 9 = g)
   \<and> (segment_model_name p = None \<longrightarrow> build_command st p ! 9 = default_segment_model_name st)
   \<and> (inference_script p = Some s \<and> s \<noteq> [] \<longrightarrow>
        build_command st p ! 1 = str_path (resolve_path st s))
   \<and> (inference_script p = None \<longrightarrow>
        build_command st p ! 1 = str_path (resolve_path st (default_inference_script st)))"
  by (simp add: build_command_eq py_or_def)

theorem override_or_default_witness:
  "build_command settings0
     (request0\<lparr>base_model_path := Some ''my/base'', segment_model_name := Some ''my/seg'',
               inference_script := Some ''run.py''\<rparr>) ! 7 = ''my/base''
   \<and> build_command settings0
     (request0\<lparr>base_model_path := Some ''my/base'', segment_model_name := Some ''my/seg'',
               inference_script := Some ''run.py''\<rparr>) ! 9 = ''my/seg''
   \<and> build_command settings0
     (request0\<lparr>base_model_path := Some ''my/base'', segment_model_name := Some ''my/seg'',
               inference_script := Some ''run.py''\<rparr>) ! 1 = ''/opt/UP2You/run.py''
   \<and> build_command settings0 request0 ! 7 = ''stabilityai/stable-diffusion-2-1-base''
   \<and> build_command settings0 request0 ! 9 = ''ZhengPeng7/BiRefNet''
   \<and> build_command settings0 request0 ! 1 = ''/opt/UP2You/inference_low_gpu.py''"
  using override_or_default
      [of "request0\<lparr>base_model_path := Some ''my/base'', segment_model_name := Some ''my/seg'',
                    inference_script := Some ''run.py''\<rparr>"
          "''my/base''" settings0 "''my/seg''" "''run.py''"]
    override_or_default [of request0 "[]" settings0 "[]" "[]"]
  by (simp add: PurePath_def settings0_def Settings_init_def request0_def py_or_def getenv_def
      str_path_def resolve_path_def joinpath_def is_absolute_def)

text \<open>
  C10. A request that supplies the base model, the segmentation model or the inference
  script as the empty string gets the same command as the request that omits that field:
  the configured default is used.
\<close>

theorem empty_override_is_default:
  "build_command st (p\<lparr>base_model_path := Some []\<rparr>) = build_command st (p\<lparr>base_model_path := None\<rparr>)
   \<and> build_command st (p\<lparr>base_model_path := Some []\<rparr>) ! 7 = default_base_model_path st
   \<and> build_command st (p\<lparr>segment_model_name := Some []\<rparr>)
       = build_command st (p\<lparr>segment_model_name := None\<rparr>)
   \<and> build_command st (p\<lparr>segment_model_name := Some []\<rparr>) ! 9 = default_segment_model_name st
   \<and> build_command st (p\<lparr>inference_script := Some []\<rparr>)
       = build_command st (p\<lparr>inference_script := None\<rparr>)
   \<and> build_command st (p\<lparr>inference_script := Some []\<rparr>) ! 1
       = str_path (resolve_path st (default_inference_script st))"
  by (simp add: build_command_eq py_or_def)

section \<open>The invariant holds in every reachable configuration\<close>

lemma set_pc_simps [simp]:
  "heap (set_pc i t c) = heap c" "jobs (set_pc i t c) = jobs c" "lock (set_pc i t c) = lock c"
  "threads (set_pc i t c) = (threads c)[i := t]"
  by (simp_all add: set_pc_def)

lemma update_record_simps [simp]:
  "heap (update_record a f c) = (heap c)[a := f (heap c ! a)]"
  "jobs (update_record a f c) = jobs c" "lock (update_record a f c) = lock c"
  "threads (update_record a f c) = threads c"
  by (simp_all add: update_record_def)

lemma thread_ok_frame:
  assumes "thread_ok st c k t"
    and "\<And>jid. owned t = Some jid \<Longrightarrow> jobs c' jid = jobs c jid"
    and "length (heap c) \<le> length (heap c')"
    and "\<And>jid a. owned t = Some jid \<Longrightarrow> jobs c jid = Some a \<Longrightarrow> heap c' ! a = heap c ! a"
    and "(lock c' = Some k) = (lock c = Some k)"
  shows "thread_ok st c' k t"
  using assms by (cases "(st, c, k, t)" rule: thread_ok.cases) (auto split: option.splits)

lemma locals_status: "locals_ok st jid p cmd env a pc \<Longrightarrow> pc_status pc = Some x \<Longrightarrow> x = a"
  by (cases pc) auto

lemma job_id_record_at [simp]: "job_id (record_at st jid p cmd env pc) = jid"
  by (cases pc) (auto simp: queued_record_def running_record_def final_record_def)

lemma inv_threadD: "inv st c \<Longrightarrow> i < length (threads c) \<Longrightarrow> thread_ok st c i (threads c ! i)"
  by (simp add: inv_def)

lemma owners_distinct_map: "map owned ts' = map owned ts \<Longrightarrow> owners_distinct ts' = owners_distinct ts"
proof -
  assume m: "map owned ts' = map owned ts"
  then have l: "length ts' = length ts" by (metis length_map)
  have "\<And>i. i < length ts \<Longrightarrow> owned (ts' ! i) = owned (ts ! i)"
    using m l by (metis nth_map)
  then show ?thesis unfolding owners_distinct_def l by auto
qed

lemma owners_distinct_update:
  "i < length ts \<Longrightarrow> owned t = owned (ts ! i) \<Longrightarrow> owners_distinct (ts[i := t]) = owners_distinct ts"
  by (rule owners_distinct_map) (simp add: map_update list_update_same_conv)

lemma inv_ownedD:
  "inv st c \<Longrightarrow> i < length (threads c) \<Longrightarrow> k < length (threads c) \<Longrightarrow>
   owned (threads c ! i) = Some jid \<Longrightarrow> owned (threads c ! k) = Some jid \<Longrightarrow> i = k"
  unfolding inv_def owners_distinct_def by (metis option.distinct(1))

lemma inv_lockD: "inv st c \<Longrightarrow> lock c = Some i \<Longrightarrow> i < length (threads c) \<and> status_of (threads c ! i) \<noteq> None"
  by (simp add: inv_def)

lemma inv_jobsD: "inv st c \<Longrightarrow> jobs c jid = Some a \<Longrightarrow> a < length (heap c) \<and> job_id (heap c ! a) = jid"
  by (simp add: inv_def)

lemma inv_wholeD: "inv st c \<Longrightarrow> a < length (heap c) \<Longrightarrow> \<not> mid_update c a \<Longrightarrow> whole (heap c ! a)"
  by (simp add: inv_def)

lemma supervisor_okD:
  assumes "inv st c" "i < length (threads c)" "threads c ! i = Supervisor jid p cmd env pc"
  obtains a where "jobs c jid = Some a" "a < length (heap c)"
    "heap c ! a = record_at st jid p cmd env pc" "locals_ok st jid p cmd env a pc"
    "(pc_status pc \<noteq> None) = (lock c = Some i)"
  using inv_threadD [OF assms(1,2)] assms(3) by (auto split: option.splits)

lemma owned_address:
  assumes I: "inv st c" and i: "i < length (threads c)" and k: "k < length (threads c)"
    and ik: "k \<noteq> i"
    and oi: "owned (threads c ! i) = Some jid" and ji: "jobs c jid = Some a"
    and ok: "owned (threads c ! k) = Some jid'" and jk: "jobs c jid' = Some a'"
  shows "a' \<noteq> a"
proof
  assume "a' = a"
  with inv_jobsD [OF I ji] inv_jobsD [OF I jk] have "jid' = jid" by simp
  with inv_ownedD [OF I i k oi] ok ik show False by simp
qed

lemma inv_update:
  assumes I: "inv st c" and i: "i < length (threads c)"
    and ti: "threads c ! i = Supervisor jid p cmd env pc"
    and s: "pc_status pc = Some a" and s': "pc_status pc' = Some a"
    and f: "f (record_at st jid p cmd env pc) = record_at st jid p cmd env pc'"
    and l': "locals_ok st jid p cmd env a pc'"
  shows "inv st (set_pc i (Supervisor jid p cmd env pc') (update_record a f c))"
proof -
  let ?c' = "set_pc i (Supervisor jid p cmd env pc') (update_record a f c)"
  obtain b where b: "jobs c jid = Some b" "b < length (heap c)"
    "heap c ! b = record_at st jid p cmd env pc" "locals_ok st jid p cmd env b pc"
    "(pc_status pc \<noteq> None) = (lock c = Some i)"
    using supervisor_okD [OF I i ti] by blast
  have ab: "b = a" using locals_status [OF b(4) s] by simp
  have lk: "lock c = Some i" using b(5) s by simp
  have oi: "owned (threads c ! i) = Some jid" using ti by simp
  have mid: "\<And>x. mid_update ?c' x = (x = a)" "\<And>x. mid_update c x = (x = a)"
    using lk i s s' ti by (auto simp: mid_update_def)
  have 1: "\<forall>k < length (threads ?c'). thread_ok st ?c' k (threads ?c' ! k)"
  proof (intro allI impI)
    fix k assume k: "k < length (threads ?c')"
    show "thread_ok st ?c' k (threads ?c' ! k)"
    proof (cases "k = i")
      case True
      then show ?thesis using i b ab f l' s' lk by simp
    next
      case False
      have "thread_ok st ?c' k (threads c ! k)"
      proof (rule thread_ok_frame [OF inv_threadD [OF I]])
        show "k < length (threads c)" using k by simp
        fix jid' a' assume "owned (threads c ! k) = Some jid'" "jobs c jid' = Some a'"
        then have "a' \<noteq> a"
          using owned_address [OF I i _ False oi _ _ ] b(1) ab k by simp
        then show "heap ?c' ! a' = heap c ! a'" by simp
      qed simp_all
      then show ?thesis using False by simp
    qed
  qed
  have 2: "owners_distinct (threads ?c')"
    using I i oi by (simp add: owners_distinct_update inv_def)
  have 3: "\<forall>i'. lock ?c' = Some i' \<longrightarrow> i' < length (threads ?c') \<and> status_of (threads ?c' ! i') \<noteq> None"
    using lk i s' by simp
  have 4: "\<forall>jid' a'. jobs ?c' jid' = Some a' \<longrightarrow> a' < length (heap ?c') \<and> job_id (heap ?c' ! a') = jid'"
  proof (intro allI impI)
    fix jid' a' assume "jobs ?c' jid' = Some a'"
    then have j: "jobs c jid' = Some a'" by simp
    from inv_jobsD [OF I j] b ab f show "a' < length (heap ?c') \<and> job_id (heap ?c' ! a') = jid'"
      by (cases "a' = a") (auto simp: nth_list_update)
  qed
  have 5: "\<forall>x < length (heap ?c'). \<not> mid_update ?c' x \<longrightarrow> whole (heap ?c' ! x)"
    using mid inv_wholeD [OF I] by simp
  from 1 2 3 4 5 show ?thesis unfolding inv_def by blast
qed


lemma mid_update_threads:
  assumes "lock c' = lock c" "length (threads c') \<ge> length (threads c)"
    "\<And>i. lock c = Some i \<Longrightarrow> i < length (threads c) \<Longrightarrow> status_of (threads c' ! i) = status_of (threads c ! i)"
    "\<And>i. lock c = Some i \<Longrightarrow> i < length (threads c)"
  shows "mid_update c' a = mid_update c a"
  using assms by (auto simp: mid_update_def split: option.splits)

lemma inv_local:
  assumes I: "inv st c" and i: "i < length (threads c)"
    and o: "owned t' = owned (threads c ! i)"
    and s: "status_of t' = status_of (threads c ! i)"
    and ok: "thread_ok st c i t'"
  shows "inv st (set_pc i t' c)"
proof -
  let ?c' = "set_pc i t' c"
  have 1: "\<forall>k < length (threads ?c'). thread_ok st ?c' k (threads ?c' ! k)"
  proof (intro allI impI)
    fix k assume k: "k < length (threads ?c')"
    have "thread_ok st ?c' k (threads c ! k)"
      by (rule thread_ok_frame [OF inv_threadD [OF I]]) (use k in simp_all)
    moreover have "thread_ok st ?c' i t'"
      by (rule thread_ok_frame [OF ok]) simp_all
    ultimately show "thread_ok st ?c' k (threads ?c' ! k)"
      using i by (cases "k = i") simp_all
  qed
  have 2: "owners_distinct (threads ?c')"
    using I i o by (simp add: owners_distinct_update inv_def)
  have 3: "\<forall>i'. lock ?c' = Some i' \<longrightarrow> i' < length (threads ?c') \<and> status_of (threads ?c' ! i') \<noteq> None"
    using inv_lockD [OF I] s i by (auto simp: nth_list_update)
  have 4: "\<forall>jid' a'. jobs ?c' jid' = Some a' \<longrightarrow> a' < length (heap ?c') \<and> job_id (heap ?c' ! a') = jid'"
    using inv_jobsD [OF I] by simp
  have "\<And>x. mid_update ?c' x = mid_update c x"
    by (rule mid_update_threads) (use inv_lockD [OF I] s i in \<open>auto simp: nth_list_update\<close>)
  then have 5: "\<forall>x < length (heap ?c'). \<not> mid_update ?c' x \<longrightarrow> whole (heap ?c' ! x)"
    using inv_wholeD [OF I] by simp
  from 1 2 3 4 5 show ?thesis unfolding inv_def by blast
qed

lemma inv_append:
  assumes I: "inv st c" and o: "owned t = None"
    and ok: "thread_ok st c (length (threads c)) t"
  shows "inv st (c\<lparr>threads := threads c @ [t]\<rparr>)"
proof -
  let ?c' = "c\<lparr>threads := threads c @ [t]\<rparr>"
  have 1: "\<forall>k < length (threads ?c'). thread_ok st ?c' k (threads ?c' ! k)"
  proof (intro allI impI)
    fix k assume k: "k < length (threads ?c')"
    show "thread_ok st ?c' k (threads ?c' ! k)"
    proof (cases "k < length (threads c)")
      case True
      have "thread_ok st ?c' k (threads c ! k)"
        by (rule thread_ok_frame [OF inv_threadD [OF I True]]) simp_all
      then show ?thesis using True by (simp add: nth_append)
    next
      case False
      then have "k = length (threads c)" using k by simp
      moreover have "thread_ok st ?c' (length (threads c)) t"
        by (rule thread_ok_frame [OF ok]) simp_all
      ultimately show ?thesis by simp
    qed
  qed
  have "owners_distinct (threads c)" using I by (simp add: inv_def)
  then have 2: "owners_distinct (threads ?c')"
    using o unfolding owners_distinct_def
    by (auto simp: nth_append less_Suc_eq)
  have 3: "\<forall>i'. lock ?c' = Some i' \<longrightarrow> i' < length (threads ?c') \<and> status_of (threads ?c' ! i') \<noteq> None"
    using inv_lockD [OF I] by (auto simp: nth_append)
  have 4: "\<forall>jid' a'. jobs ?c' jid' = Some a' \<longrightarrow> a' < length (heap ?c') \<and> job_id (heap ?c' ! a') = jid'"
    using inv_jobsD [OF I] by simp
  have "\<And>x. mid_update ?c' x = mid_update c x"
    by (rule mid_update_threads) (use inv_lockD [OF I] in \<open>auto simp: nth_append\<close>)
  then have 5: "\<forall>x < length (heap ?c'). \<not> mid_update ?c' x \<longrightarrow> whole (heap ?c' ! x)"
    using inv_wholeD [OF I] by simp
  from 1 2 3 4 5 show ?thesis unfolding inv_def by blast
qed


lemma inv_acquire:
  assumes I: "inv st c" and i: "i < length (threads c)"
    and ti: "threads c ! i = Supervisor jid p cmd env pc"
    and lk: "lock c = None"
    and j: "jobs c jid = Some a"
    and s': "pc_status pc' = Some a"
    and r: "record_at st jid p cmd env pc' = record_at st jid p cmd env pc"
    and l': "locals_ok st jid p cmd env a pc'"
  shows "inv st (set_pc i (Supervisor jid p cmd env pc') (c\<lparr>lock := Some i\<rparr>))"
proof -
  let ?c' = "set_pc i (Supervisor jid p cmd env pc') (c\<lparr>lock := Some i\<rparr>)"
  obtain b where b: "jobs c jid = Some b" "b < length (heap c)"
    "heap c ! b = record_at st jid p cmd env pc"
    using supervisor_okD [OF I i ti] by blast
  have ab: "b = a" using b(1) j by simp
  have oi: "owned (threads c ! i) = Some jid" using ti by simp
  have mid: "\<And>x. mid_update ?c' x = (x = a)" "\<And>x. \<not> mid_update c x"
    using lk i s' by (auto simp: mid_update_def)
  have 1: "\<forall>k < length (threads ?c'). thread_ok st ?c' k (threads ?c' ! k)"
  proof (intro allI impI)
    fix k assume k: "k < length (threads ?c')"
    show "thread_ok st ?c' k (threads ?c' ! k)"
    proof (cases "k = i")
      case True
      then show ?thesis using i b ab r l' s' by simp
    next
      case False
      have "thread_ok st ?c' k (threads c ! k)"
        by (rule thread_ok_frame [OF inv_threadD [OF I]]) (use k False lk in auto)
      then show ?thesis using False by simp
    qed
  qed
  have 2: "owners_distinct (threads ?c')"
    using I i oi by (simp add: owners_distinct_update inv_def)
  have 3: "\<forall>i'. lock ?c' = Some i' \<longrightarrow> i' < length (threads ?c') \<and> status_of (threads ?c' ! i') \<noteq> None"
    using i s' by simp
  have 4: "\<forall>jid' a'. jobs ?c' jid' = Some a' \<longrightarrow> a' < length (heap ?c') \<and> job_id (heap ?c' ! a') = jid'"
    using inv_jobsD [OF I] by simp
  have 5: "\<forall>x < length (heap ?c'). \<not> mid_update ?c' x \<longrightarrow> whole (heap ?c' ! x)"
    using mid inv_wholeD [OF I] by simp
  from 1 2 3 4 5 show ?thesis unfolding inv_def by blast
qed

lemma inv_release:
  assumes I: "inv st c" and i: "i < length (threads c)"
    and ti: "threads c ! i = Supervisor jid p cmd env pc"
    and s: "pc_status pc = Some a" and s': "pc_status pc' = None"
    and r: "record_at st jid p cmd env pc' = record_at st jid p cmd env pc"
    and l': "locals_ok st jid p cmd env a pc'"
    and w: "whole (record_at st jid p cmd env pc')"
  shows "inv st (set_pc i (Supervisor jid p cmd env pc') (c\<lparr>jobs := (jobs c)(jid \<mapsto> a), lock := None\<rparr>))"
proof -
  let ?c' = "set_pc i (Supervisor jid p cmd env pc') (c\<lparr>jobs := (jobs c)(jid \<mapsto> a), lock := None\<rparr>)"
  obtain b where b: "jobs c jid = Some b" "b < length (heap c)"
    "heap c ! b = record_at st jid p cmd env pc" "locals_ok st jid p cmd env b pc"
    "(pc_status pc \<noteq> None) = (lock c = Some i)"
    using supervisor_okD [OF I i ti] by blast
  have ab: "b = a" using locals_status [OF b(4) s] by simp
  have lk: "lock c = Some i" using b(5) s by simp
  have js: "(jobs c)(jid \<mapsto> a) = jobs c" using b(1) ab by (simp add: fun_upd_idem)
  have oi: "owned (threads c ! i) = Some jid" using ti by simp
  have mid: "\<And>x. \<not> mid_update ?c' x" "\<And>x. mid_update c x = (x = a)"
    using lk i s ti by (auto simp: mid_update_def)
  have 1: "\<forall>k < length (threads ?c'). thread_ok st ?c' k (threads ?c' ! k)"
  proof (intro allI impI)
    fix k assume k: "k < length (threads ?c')"
    show "thread_ok st ?c' k (threads ?c' ! k)"
    proof (cases "k = i")
      case True
      then show ?thesis using i b ab r l' s' by simp
    next
      case False
      have "thread_ok st ?c' k (threads c ! k)"
        by (rule thread_ok_frame [OF inv_threadD [OF I]]) (use k False lk js in auto)
      then show ?thesis using False by simp
    qed
  qed
  have 2: "owners_distinct (threads ?c')"
    using I i oi by (simp add: owners_distinct_update inv_def)
  have 3: "\<forall>i'. lock ?c' = Some i' \<longrightarrow> i' < length (threads ?c') \<and> status_of (threads ?c' ! i') \<noteq> None"
    by simp
  have 4: "\<forall>jid' a'. jobs ?c' jid' = Some a' \<longrightarrow> a' < length (heap ?c') \<and> job_id (heap ?c' ! a') = jid'"
    using inv_jobsD [OF I] js by simp
  have 5: "\<forall>x < length (heap ?c'). \<not> mid_update ?c' x \<longrightarrow> whole (heap ?c' ! x)"
  proof (intro allI impI)
    fix x assume x: "x < length (heap ?c')"
    show "whole (heap ?c' ! x)"
    proof (cases "x = a")
      case True
      then show ?thesis using b(3) ab r w by simp
    next
      case False
      then show ?thesis using inv_wholeD [OF I, of x] mid(2) x by simp
    qed
  qed
  from 1 2 3 4 5 show ?thesis unfolding inv_def by blast
qed

lemma owned_stored:
  assumes I: "inv st c" and k: "k < length (threads c)" and o: "owned (threads c ! k) = Some jid"
  shows "jobs c jid \<noteq> None"
  using inv_threadD [OF I k] o
  by (cases "(st, c, k, threads c ! k)" rule: thread_ok.cases) (auto split: option.splits)

lemma whole_queued [simp]: "whole (queued_record jid cmd env)"
  by (simp add: whole_def queued_record_def)

lemma whole_running [simp]: "whole (running_record st jid p cmd env)"
  by (simp add: whole_def running_record_def queued_record_def)

lemma whole_final [simp]: "whole (final_record st jid p cmd env)"
  by (simp add: whole_def final_record_def running_record_def queued_record_def)

lemma inv_create:
  assumes I: "inv st c" and i: "i < length (threads c)"
    and ti: "threads c ! i = Creator p env Create26"
    and lk: "lock c = None"
    and fr: "jobs c (uuid4 env) = None"
  shows "inv st (create_job_step st i p env Create26 c)"
proof -
  let ?jid = "uuid4 env" and ?cmd = "build_command st p" and ?n = "length (heap c)"
  let ?c' = "c\<lparr> heap := heap c @ [queued_record ?jid ?cmd env],
               jobs := (jobs c)(?jid \<mapsto> ?n),
               threads := (threads c)[i := Creator p env (Create38 ?jid ?cmd (now_created env) ?n)] \<rparr>"
  have eq: "create_job_step st i p env Create26 c = ?c'"
    using lk by (simp add: Let_def queued_record_def)
  have mid: "\<And>x. \<not> mid_update ?c' x" "\<And>x. \<not> mid_update c x"
    using lk by (auto simp: mid_update_def)
  have 1: "\<forall>k < length (threads ?c'). thread_ok st ?c' k (threads ?c' ! k)"
  proof (intro allI impI)
    fix k assume k: "k < length (threads ?c')"
    show "thread_ok st ?c' k (threads ?c' ! k)"
    proof (cases "k = i")
      case True
      then show ?thesis using i by simp
    next
      case False
      have kk: "k < length (threads c)" using k by simp
      have "thread_ok st ?c' k (threads c ! k)"
      proof (rule thread_ok_frame [OF inv_threadD [OF I kk]])
        fix jid assume o: "owned (threads c ! k) = Some jid"
        then have ne: "jid \<noteq> ?jid" using owned_stored [OF I kk o] fr by auto
        then show "jobs ?c' jid = jobs c jid" by simp
        fix a assume "jobs c jid = Some a"
        then have "a < length (heap c)" using inv_jobsD [OF I] by blast
        then show "heap ?c' ! a = heap c ! a" by (simp add: nth_append)
      qed simp_all
      then show ?thesis using False by simp
    qed
  qed
  have od: "owners_distinct (threads c)" using I by (simp add: inv_def)
  have 2: "owners_distinct (threads ?c')"
    unfolding owners_distinct_def
  proof (intro allI impI)
    fix x y
    assume x: "x < length (threads ?c')" and y: "y < length (threads ?c')"
      and e: "owned (threads ?c' ! x) \<noteq> None \<and> owned (threads ?c' ! x) = owned (threads ?c' ! y)"
    have other: "\<And>k. k < length (threads c) \<Longrightarrow> k \<noteq> i \<Longrightarrow> owned (threads c ! k) \<noteq> Some ?jid"
      using owned_stored [OF I] fr by blast
    show "x = y"
    proof (cases "x = i \<or> y = i")
      case True
      then show ?thesis using x y e other i by (auto simp: nth_list_update split: if_splits)
    next
      case False
      then show ?thesis using x y e od unfolding owners_distinct_def by auto
    qed
  qed
  have 3: "\<forall>i'. lock ?c' = Some i' \<longrightarrow> i' < length (threads ?c') \<and> status_of (threads ?c' ! i') \<noteq> None"
    using lk by simp
  have 4: "\<forall>jid' a'. jobs ?c' jid' = Some a' \<longrightarrow> a' < length (heap ?c') \<and> job_id (heap ?c' ! a') = jid'"
    using inv_jobsD [OF I] by (auto simp: nth_append queued_record_def less_Suc_eq)
  have 5: "\<forall>x < length (heap ?c'). \<not> mid_update ?c' x \<longrightarrow> whole (heap ?c' ! x)"
    using inv_wholeD [OF I] mid(2) by (auto simp: nth_append less_Suc_eq)
  from 1 2 3 4 5 have "inv st ?c'" unfolding inv_def by blast
  then show ?thesis using eq by simp
qed

lemma inv_start:
  assumes I: "inv st c" and i: "i < length (threads c)"
    and ti: "threads c ! i = Creator p env (Create38 jid cmd created a)"
  shows "inv st (create_job_step st i p env (Create38 jid cmd created a) c)"
proof -
  let ?c' = "c\<lparr> threads := (threads c)[i := Creator p env (Create43 jid cmd created a)]
                     @ [Supervisor jid p cmd env Run83] \<rparr>"
  let ?n = "length (threads c)"
  have ok: "jobs c jid = Some a" "a < length (heap c)" "heap c ! a = queued_record jid cmd env"
    using inv_threadD [OF I i] ti by simp_all
  have nolock: "lock c \<noteq> Some i" "lock c \<noteq> Some ?n"
    using inv_lockD [OF I] ti by auto
  have 1: "\<forall>k < length (threads ?c'). thread_ok st ?c' k (threads ?c' ! k)"
  proof (intro allI impI)
    fix k assume k: "k < length (threads ?c')"
    consider "k = i" | "k = ?n" | "k \<noteq> i" "k < ?n" using k by fastforce
    then show "thread_ok st ?c' k (threads ?c' ! k)"
    proof cases
      case 1
      then show ?thesis using i ok by (simp add: nth_append)
    next
      case 2
      then show ?thesis using ok nolock by (simp add: nth_append)
    next
      case 3
      have "thread_ok st ?c' k (threads c ! k)"
        by (rule thread_ok_frame [OF inv_threadD [OF I 3(2)]]) simp_all
      then show ?thesis using 3 by (simp add: nth_append)
    qed
  qed
  have od: "owners_distinct (threads c)" using I by (simp add: inv_def)
  have oi: "owned (threads c ! i) = Some jid" using ti by simp
  have 2: "owners_distinct (threads ?c')"
    unfolding owners_distinct_def
  proof (intro allI impI)
    fix x y
    assume x: "x < length (threads ?c')" and y: "y < length (threads ?c')"
      and e: "owned (threads ?c' ! x) \<noteq> None \<and> owned (threads ?c' ! x) = owned (threads ?c' ! y)"
    have other: "\<And>k. k < ?n \<Longrightarrow> k \<noteq> i \<Longrightarrow> owned (threads c ! k) \<noteq> Some jid"
      using inv_ownedD [OF I _ i _ oi] by blast
    have xi: "x \<noteq> i" "y \<noteq> i" using e i x y by (auto simp: nth_append nth_list_update split: if_splits)
    show "x = y"
    proof (cases "x = ?n \<or> y = ?n")
      case True
      then show ?thesis using x y e other xi
        by (auto simp: nth_append nth_list_update less_Suc_eq split: if_splits)
    next
      case False
      then have "x < ?n" "y < ?n" using x y by auto
      then show ?thesis using xi e od unfolding owners_distinct_def
        by (auto simp: nth_append)
    qed
  qed
  have 3: "\<forall>i'. lock ?c' = Some i' \<longrightarrow> i' < length (threads ?c') \<and> status_of (threads ?c' ! i') \<noteq> None"
  proof (intro allI impI)
    fix i' assume "lock ?c' = Some i'"
    then have l: "lock c = Some i'" by simp
    from inv_lockD [OF I l] ti have "i' \<noteq> i" "i' < ?n" "status_of (threads c ! i') \<noteq> None" by auto
    then show "i' < length (threads ?c') \<and> status_of (threads ?c' ! i') \<noteq> None"
      by (simp add: nth_append)
  qed
  have 4: "\<forall>jid' a'. jobs ?c' jid' = Some a' \<longrightarrow> a' < length (heap ?c') \<and> job_id (heap ?c' ! a') = jid'"
    using inv_jobsD [OF I] by simp
  have "\<And>x. mid_update ?c' x = mid_update c x"
  proof (rule mid_update_threads)
    fix i' assume l: "lock c = Some i'"
    from inv_lockD [OF I l] ti have "i' \<noteq> i" "i' < ?n" by auto
    then show "status_of (threads ?c' ! i') = status_of (threads c ! i')" "i' < ?n"
      by (simp_all add: nth_append)
  qed simp_all
  then have 5: "\<forall>x < length (heap ?c'). \<not> mid_update ?c' x \<longrightarrow> whole (heap ?c' ! x)"
    using inv_wholeD [OF I] by simp
  from 1 2 3 4 5 have "inv st ?c'" unfolding inv_def by blast
  then show ?thesis by simp
qed


lemma inv_run_job_step:
  assumes I: "inv st c" and i: "i < length (threads c)"
    and ti: "threads c ! i = Supervisor jid p cmd env pc"
  shows "inv st (run_job_step st i jid p cmd env pc c)"
proof -
  obtain a where a: "jobs c jid = Some a" "a < length (heap c)"
    "heap c ! a = record_at st jid p cmd env pc" "locals_ok st jid p cmd env a pc"
    "(pc_status pc \<noteq> None) = (lock c = Some i)"
    using supervisor_okD [OF I i ti] by blast
  note upd = inv_update [OF I i ti] and acq = inv_acquire [OF I i ti] and rel = inv_release [OF I i ti]
  show ?thesis
  proof (cases pc)
    case Run83
    have "inv st (set_pc i (Supervisor jid p cmd env pc') c)"
      if "pc_status pc' = None" "record_at st jid p cmd env pc' = queued_record jid cmd env"
        "locals_ok st jid p cmd env a pc'" for pc'
      by (rule inv_local [OF I i]) (use that ti a Run83 in auto)
    then show ?thesis using Run83 by (simp add: Let_def split: option.splits)
  next
    case (Run87 s l)
    show ?thesis
    proof (cases "lock c = None")
      case True
      have "inv st (set_pc i (Supervisor jid p cmd env (Run89 s l a)) (c\<lparr>lock := Some i\<rparr>))"
        by (rule acq [OF True a(1)]) (use a Run87 in auto)
      then show ?thesis using Run87 True a(1) by simp
    next
      case False
      then show ?thesis using Run87 I by auto
    qed
  next
    case (Run89 s l x)
    then have x: "x = a" using a(4) by simp
    have "inv st (set_pc i (Supervisor jid p cmd env (Run90 s l a)) (update_record a (\<lambda>r. r\<lparr>state := RUNNING\<rparr>) c))"
      by (rule upd) (use a Run89 x in auto)
    then show ?thesis using Run89 x by simp
  next
    case (Run90 s l x)
    then have x: "x = a" "s = now_started env" using a(4) by simp_all
    have "inv st (set_pc i (Supervisor jid p cmd env (Run91 l a)) (update_record a (\<lambda>r. r\<lparr>started_at := Some s\<rparr>) c))"
      by (rule upd) (use a Run90 x in auto)
    then show ?thesis using Run90 x by simp
  next
    case (Run91 l x)
    then have x: "x = a" "l = log_path_of st p jid" using a(4) by simp_all
    have "inv st (set_pc i (Supervisor jid p cmd env (Run92 l a)) (update_record a (\<lambda>r. r\<lparr>log_path := Some (str_path l)\<rparr>) c))"
      by (rule upd) (use a Run91 x in \<open>auto simp: running_record_def\<close>)
    then show ?thesis using Run91 x by simp
  next
    case (Run92 l x)
    then have x: "x = a" "l = log_path_of st p jid" using a(4) by simp_all
    have "inv st (set_pc i (Supervisor jid p cmd env (Run94 l)) (c\<lparr>jobs := (jobs c)(jid \<mapsto> a), lock := None\<rparr>))"
      by (rule rel) (use a Run92 x in auto)
    then show ?thesis using Run92 x by simp
  next
    case (Run94 l)
    have "inv st (set_pc i (Supervisor jid p cmd env (Run109 k m)) c)"
      if "(k, m) = outcome st jid p cmd env" for k m
      by (rule inv_local [OF I i]) (use that ti a Run94 in auto)
    then show ?thesis using Run94 a(4) by (simp add: outcome_def split: prod.splits)
  next
    case (Run109 k m)
    show ?thesis
    proof (cases "lock c = None")
      case True
      have "inv st (set_pc i (Supervisor jid p cmd env (Run112 k m (now_finished env) a)) (c\<lparr>lock := Some i\<rparr>))"
        by (rule acq [OF True a(1)]) (use a Run109 in auto)
      then show ?thesis using Run109 True a(1) by simp
    next
      case False
      then show ?thesis using Run109 I by auto
    qed
  next
    case (Run112 k m f x)
    then have x: "x = a" "(k, m) = outcome st jid p cmd env" using a(4) by simp_all
    then have k: "k = fst (outcome st jid p cmd env)" by (metis fst_conv)
    have "inv st (set_pc i (Supervisor jid p cmd env (Run113 k m f a))
            (update_record a (\<lambda>r. r\<lparr>state := (if k = 0 then SUCCEEDED else FAILED)\<rparr>) c))"
      by (rule upd) (use a Run112 x k in auto)
    then show ?thesis using Run112 x by simp
  next
    case (Run113 k m f x)
    then have x: "x = a" "f = now_finished env" using a(4) by simp_all
    have "inv st (set_pc i (Supervisor jid p cmd env (Run114 k m a))
            (update_record a (\<lambda>r. r\<lparr>completed_at := Some f\<rparr>) c))"
      by (rule upd) (use a Run113 x in auto)
    then show ?thesis using Run113 x by simp
  next
    case (Run114 k m x)
    then have x: "x = a" "(k, m) = outcome st jid p cmd env" using a(4) by simp_all
    then have k: "k = fst (outcome st jid p cmd env)" "m = snd (outcome st jid p cmd env)"
      by (metis fst_conv, metis snd_conv)
    have "inv st (set_pc i (Supervisor jid p cmd env (Run115 m a))
            (update_record a (\<lambda>r. r\<lparr>exit_code := Some k\<rparr>) c))"
      by (rule upd) (use a Run114 x k in auto)
    then show ?thesis using Run114 x by simp
  next
    case (Run115 m x)
    then have x: "x = a" "m = snd (outcome st jid p cmd env)" using a(4) by simp_all
    have "inv st (set_pc i (Supervisor jid p cmd env (Run116 a))
            (update_record a (\<lambda>r. r\<lparr>message := Some m\<rparr>) c))"
      by (rule upd) (use a Run115 x in \<open>auto simp: final_record_def\<close>)
    then show ?thesis using Run115 x by simp
  next
    case (Run116 x)
    then have x: "x = a" using a(4) by simp
    have "inv st (set_pc i (Supervisor jid p cmd env RunDone) (c\<lparr>jobs := (jobs c)(jid \<mapsto> a), lock := None\<rparr>))"
      by (rule rel) (use a Run116 x in auto)
    then show ?thesis using Run116 x by simp
  next
    case RunDone
    then show ?thesis using I by simp
  next
    case (RunRaised e)
    then show ?thesis using I by simp
  qed
qed

lemma inv_create_job_step:
  assumes I: "inv st c" and i: "i < length (threads c)"
    and ti: "threads c ! i = Creator p env pc"
    and fr: "fresh (Sched i) c"
  shows "inv st (create_job_step st i p env pc c)"
proof (cases pc)
  case Create26
  show ?thesis
  proof (cases "lock c = None")
    case True
    have "jobs c (uuid4 env) = None" using fr i ti Create26 by simp
    from inv_create [OF I i _ True this] ti Create26 show ?thesis by simp
  next
    case False
    then show ?thesis using Create26 I by auto
  qed
next
  case (Create38 jid cmd created a)
  then show ?thesis using inv_start [OF I i] ti by simp
next
  case (Create43 jid cmd created a)
  have "inv st (set_pc i (Creator p env (CreateDone r)) c)" for r
    by (rule inv_local [OF I i]) (use ti Create43 in auto)
  then show ?thesis using Create43 by simp
next
  case (CreateDone r)
  then show ?thesis using I by simp
qed

lemma inv_get_job_step:
  assumes I: "inv st c" and i: "i < length (threads c)"
    and ti: "threads c ! i = Reader jid pc"
  shows "inv st (get_job_step i jid pc c)"
proof -
  have loc: "inv st (set_pc i (Reader jid pc') c)" if "thread_ok st c i (Reader jid pc')" for pc'
    by (rule inv_local [OF I i]) (use ti that in auto)
  show ?thesis
  proof (cases pc)
    case Get53
    have "thread_ok st c i (Reader jid (Get34 (jobs c jid)))"
      using inv_jobsD [OF I] by (cases "jobs c jid") auto
    then show ?thesis using Get53 loc I by simp
  next
    case (Get34 r)
    then show ?thesis using loc by (simp split: option.splits)
  next
    case (GetDone r)
    then show ?thesis using I by simp
  qed
qed

lemma inv_init: "inv st init"
  by (simp add: inv_def init_def owners_distinct_def)

lemma inv_step:
  assumes I: "inv st c" and fr: "fresh e c"
  shows "inv st (step st e c)"
proof (cases e)
  case (Submit p env)
  then show ?thesis using inv_append [OF I, of "Creator p env Create26"] by simp
next
  case (Query jid)
  then show ?thesis using inv_append [OF I, of "Reader jid Get53"] by simp
next
  case (Sched i)
  show ?thesis
  proof (cases "i < length (threads c)")
    case True
    show ?thesis
    proof (cases "threads c ! i")
      case (Creator p env pc)
      then show ?thesis using inv_create_job_step [OF I True _ fr [unfolded Sched]] Sched True by simp
    next
      case (Supervisor jid p cmd env pc)
      then show ?thesis using inv_run_job_step [OF I True] Sched True by simp
    next
      case (Reader jid pc)
      then show ?thesis using inv_get_job_step [OF I True] Sched True by simp
    qed
  next
    case False
    then show ?thesis using Sched I by simp
  qed
qed

lemma inv_exec: "inv st c \<Longrightarrow> uuids_fresh st es c \<Longrightarrow> inv st (exec st es c)"
  by (induction es arbitrary: c) (auto intro: inv_step)

lemma inv_reachable: "uuids_fresh st es init \<Longrightarrow> inv st (exec st es init)"
  by (rule inv_exec [OF inv_init])

section \<open>How one step changes a record\<close>

lemma length_heap_step: "length (heap c) \<le> length (heap (step st e c))"
proof (cases e)
  case (Sched i)
  show ?thesis
  proof (cases "i < length (threads c)")
    case True
    show ?thesis
    proof (cases "threads c ! i")
      case (Creator p env pc)
      then show ?thesis using Sched True by (cases pc) (auto simp: Let_def)
    next
      case (Supervisor jid p cmd env pc)
      then show ?thesis using Sched True
        by (cases pc) (auto simp: Let_def split: option.splits prod.splits)
    next
      case (Reader jid pc)
      then show ?thesis using Sched True by (cases pc) (auto split: option.splits)
    qed
  qed (use Sched in simp)
qed simp_all

lemma state_advance_refl [simp]: "state_advance r r"
  by (simp add: state_advance_def)

lemma run_job_step_record:
  assumes I: "inv st c" and i: "i < length (threads c)"
    and ti: "threads c ! i = Supervisor jid p cmd env pc"
    and a: "a < length (heap c)"
  shows "state_advance (heap c ! a) (heap (run_job_step st i jid p cmd env pc c) ! a)
         \<and> (\<not> mid_update c a \<longrightarrow> heap (run_job_step st i jid p cmd env pc c) ! a = heap c ! a)"
proof -
  obtain b where b: "jobs c jid = Some b" "b < length (heap c)"
    "heap c ! b = record_at st jid p cmd env pc" "locals_ok st jid p cmd env b pc"
    "(pc_status pc \<noteq> None) = (lock c = Some i)"
    using supervisor_okD [OF I i ti] by blast
  have mid: "pc_status pc = Some x \<Longrightarrow> mid_update c x" for x
    using b(5) i ti by (auto simp: mid_update_def)
  show ?thesis
    using b mid a
    by (cases pc)
       (auto simp: Let_def nth_list_update state_advance_def queued_record_def running_record_def
             split: option.splits prod.splits)
qed

lemma step_record:
  assumes I: "inv st c" and a: "a < length (heap c)"
  shows "state_advance (heap c ! a) (heap (step st e c) ! a)
         \<and> (\<not> mid_update c a \<longrightarrow> heap (step st e c) ! a = heap c ! a)"
proof (cases e)
  case (Sched i)
  show ?thesis
  proof (cases "i < length (threads c)")
    case True
    show ?thesis
    proof (cases "threads c ! i")
      case (Creator p env pc)
      then show ?thesis using Sched True a by (cases pc) (auto simp: Let_def nth_append)
    next
      case (Supervisor jid p cmd env pc)
      then show ?thesis using run_job_step_record [OF I True Supervisor a] Sched True by simp
    next
      case (Reader jid pc)
      then show ?thesis using Sched True by (cases pc) (auto split: option.splits)
    qed
  qed (use Sched in simp)
qed simp_all

lemma mid_update_set_pc:
  "mid_update (set_pc i t c) a =
     (case lock c of
        None \<Rightarrow> False
      | Some k \<Rightarrow> k < length (threads c) \<and>
          (if k = i then status_of t = Some a else status_of (threads c ! k) = Some a))"
  by (auto simp: mid_update_def nth_list_update split: option.splits)

lemma run_job_step_mid:
  assumes I: "inv st c" and i: "i < length (threads c)"
    and ti: "threads c ! i = Supervisor jid p cmd env pc"
    and a: "a < length (heap c)"
    and m': "mid_update (run_job_step st i jid p cmd env pc c) a"
    and m: "\<not> mid_update c a"
  shows "\<not> terminal (state (heap c ! a))"
proof -
  obtain b where b: "jobs c jid = Some b" "b < length (heap c)"
    "heap c ! b = record_at st jid p cmd env pc" "locals_ok st jid p cmd env b pc"
    "(pc_status pc \<noteq> None) = (lock c = Some i)"
    using supervisor_okD [OF I i ti] by blast
  have crit: "lock c = Some i \<and> mid_update c x" if "pc_status pc = Some x" for x
    using that b(5) i ti by (simp add: mid_update_def)
  have same: "mid_update (set_pc i (Supervisor jid p cmd env pc') c) a = False" if "pc_status pc' = None" for pc'
    using that m unfolding mid_update_set_pc by (auto simp: mid_update_def split: option.splits if_splits)
  show ?thesis
  proof (cases pc)
    case Run83
    then show ?thesis using m' by (auto simp: same Let_def split: option.splits)
  next
    case (Run87 s l)
    then show ?thesis using m' m b(1,3)
      by (auto simp: mid_update_set_pc queued_record_def split: if_splits)
  next
    case (Run89 s l x)
    then show ?thesis using m' m crit [of x]
      by (auto simp: mid_update_set_pc mid_update_def split: option.splits if_splits)
  next
    case (Run90 s l x)
    then show ?thesis using m' m crit [of x]
      by (auto simp: mid_update_set_pc mid_update_def split: option.splits if_splits)
  next
    case (Run91 l x)
    then show ?thesis using m' m crit [of x]
      by (auto simp: mid_update_set_pc mid_update_def split: option.splits if_splits)
  next
    case (Run92 l x)
    then show ?thesis using m' by (simp add: mid_update_set_pc)
  next
    case (Run94 l)
    then show ?thesis using m' by (auto simp: same split: prod.splits)
  next
    case (Run109 k mm)
    then show ?thesis using m' m b(1,3)
      by (auto simp: mid_update_set_pc queued_record_def running_record_def Let_def split: if_splits)
  next
    case (Run112 k mm f x)
    then show ?thesis using m' m crit [of x]
      by (auto simp: mid_update_set_pc mid_update_def split: option.splits if_splits)
  next
    case (Run113 k mm f x)
    then show ?thesis using m' m crit [of x]
      by (auto simp: mid_update_set_pc mid_update_def split: option.splits if_splits)
  next
    case (Run114 k mm x)
    then show ?thesis using m' m crit [of x]
      by (auto simp: mid_update_set_pc mid_update_def split: option.splits if_splits)
  next
    case (Run115 mm x)
    then show ?thesis using m' m crit [of x]
      by (auto simp: mid_update_set_pc mid_update_def split: option.splits if_splits)
  next
    case (Run116 x)
    then show ?thesis using m' by (simp add: mid_update_set_pc)
  next
    case RunDone
    then show ?thesis using m m' by simp
  next
    case (RunRaised e)
    then show ?thesis using m m' by simp
  qed
qed

lemma step_mid:
  assumes I: "inv st c" and a: "a < length (heap c)"
    and m': "mid_update (step st e c) a" and m: "\<not> mid_update c a"
  shows "\<not> terminal (state (heap c ! a))"
proof (cases e)
  case (Submit p env)
  then show ?thesis using m m' inv_lockD [OF I]
    by (auto simp: mid_update_def nth_append split: option.splits if_splits)
next
  case (Query jid)
  then show ?thesis using m m' inv_lockD [OF I]
    by (auto simp: mid_update_def nth_append split: option.splits if_splits)
next
  case (Sched i)
  show ?thesis
  proof (cases "i < length (threads c)")
    case True
    show ?thesis
    proof (cases "threads c ! i")
      case (Creator p env pc)
      then show ?thesis using Sched True m m' inv_lockD [OF I]
        by (cases pc)
           (auto simp: Let_def mid_update_def nth_append nth_list_update split: option.splits if_splits)
    next
      case (Supervisor jid p cmd env pc)
      then show ?thesis using run_job_step_mid [OF I True Supervisor a _ m] m' Sched True by simp
    next
      case (Reader jid pc)
      then show ?thesis using Sched True m m' inv_lockD [OF I]
        by (cases pc)
           (auto simp: mid_update_def nth_list_update split: option.splits if_splits)
    qed
  qed (use Sched m m' in simp)
qed

lemma settled_exec:
  "inv st c \<Longrightarrow> uuids_fresh st es c \<Longrightarrow> a < length (heap c) \<Longrightarrow>
   terminal (state (heap c ! a)) \<Longrightarrow> \<not> mid_update c a \<Longrightarrow>
   heap (exec st es c) ! a = heap c ! a \<and> \<not> mid_update (exec st es c) a"
proof (induction es arbitrary: c)
  case Nil
  then show ?case by simp
next
  case (Cons e es)
  let ?c1 = "step st e c"
  have I1: "inv st ?c1" using Cons.prems by (auto intro: inv_step)
  have a1: "a < length (heap ?c1)" using Cons.prems(3) length_heap_step [of c st e] by simp
  have h1: "heap ?c1 ! a = heap c ! a" using step_record [OF Cons.prems(1,3)] Cons.prems(5) by simp
  have m1: "\<not> mid_update ?c1 a" using step_mid [OF Cons.prems(1,3)] Cons.prems(4,5) by blast
  from Cons.IH [OF I1 _ a1] Cons.prems(2,4) h1 m1 show ?case by simp
qed

lemma uuids_fresh_append:
  "uuids_fresh st (es @ es') c = (uuids_fresh st es c \<and> uuids_fresh st es' (exec st es c))"
  by (induction es arbitrary: c) auto

section \<open>Evaluating concrete runs\<close>

lemma env_exit_simps [simp]:
  "uuid4 (env_exit k) = ''job-a''" "now_created (env_exit k) = 1" "now_started (env_exit k) = 2"
  "now_finished (env_exit k) = 3" "mkdir (env_exit k) x = None" "open_w (env_exit k) x = None"
  "popen (env_exit k) y z = None" "wait (env_exit k) = Inr k"
  by (simp_all add: env_exit_def)

lemma env_mkdir_fails_simps [simp]:
  "uuid4 env_mkdir_fails = ''job-a''" "now_created env_mkdir_fails = 1"
  "now_started env_mkdir_fails = 2" "mkdir env_mkdir_fails x = Some ''PermissionError()''"
  by (simp_all add: env_mkdir_fails_def)

lemma env_popen_fails_simps [simp]:
  "uuid4 env_popen_fails = ''job-a''" "now_created env_popen_fails = 1"
  "now_started env_popen_fails = 2" "now_finished env_popen_fails = 3"
  "mkdir env_popen_fails x = None" "open_w env_popen_fails x = None"
  "popen env_popen_fails y z = Some ''FileNotFoundError()''"
  by (simp_all add: env_popen_fails_def)

lemma request0_output_dir [simp]: "output_dir request0 = ''/srv/out''"
  by (simp add: request0_def)

lemma settings0_repo_path [simp]: "up2you_repo_path settings0 = Path ''/'' [''opt'', ''UP2You'']"
  by (simp add: settings0_def Settings_init_def py_or_def getenv_def PurePath_def)

lemmas run_defs = init_def submitted_def first_block_def try_and_lock_def second_block_def
  set_pc_def update_record_def Let_def log_path_of_def JobManager_resolve_path_def
  resolve_path_def PurePath_def is_absolute_def joinpath_def parent_def try_block_def
  crashed_def str_path_def

section \<open>The supervisor\<close>

text \<open>
  C2. The claim holds for failures inside the \<^verbatim>\<open>try\<close> statement, and fails for
  directory creation, which runs before it. In the first run \<^verbatim>\<open>mkdir\<close> raises: the
  supervisor thread ends with that exception, the record of the job is still Queued,
  without exit code or message, and no further scheduling of the supervisor changes
  anything. In the second run \<^verbatim>\<open>Popen\<close> raises: the record ends Failed with exit
  code -1 and the message of the handler.
\<close>

theorem mkdir_failure_escapes:
  "supervisor_pc_of (threads (exec settings0 (submitted env_mkdir_fails @ [Sched 1]) init) ! 1)
     = Some (RunRaised (Raised ''PermissionError()''))
   \<and> state (heap (exec settings0 (submitted env_mkdir_fails @ [Sched 1]) init) ! 0) = QUEUED
   \<and> exit_code (heap (exec settings0 (submitted env_mkdir_fails @ [Sched 1]) init) ! 0) = None
   \<and> message (heap (exec settings0 (submitted env_mkdir_fails @ [Sched 1]) init) ! 0) = None
   \<and> exec settings0 (submitted env_mkdir_fails @ [Sched 1] @ first_block) init
       = exec settings0 (submitted env_mkdir_fails @ [Sched 1]) init
   \<and> supervisor_pc_of (threads (exec settings0
        (submitted env_popen_fails @ first_block @ try_and_lock @ second_block) init) ! 1)
       = Some RunDone
   \<and> state (heap (exec settings0
        (submitted env_popen_fails @ first_block @ try_and_lock @ second_block) init) ! 0) = FAILED
   \<and> exit_code (heap (exec settings0
        (submitted env_popen_fails @ first_block @ try_and_lock @ second_block) init) ! 0)
       = Some (- 1)
   \<and> message (heap (exec settings0
        (submitted env_popen_fails @ first_block @ try_and_lock @ second_block) init) ! 0)
       = Some ''Job crashed with error: FileNotFoundError()''"
  by (simp add: run_defs)

text \<open>
  C4. The acknowledgement reads the state through the reference to the stored record
  after the supervisor thread has been started. When the supervisor has executed line 89
  by then, the acknowledgement says Running; when the supervisor has finished, it says
  Succeeded.
\<close>

theorem acknowledgement_race:
  "creator_pc_of
     (threads (exec settings0 (submitted (env_exit 0) @ [Sched 1, Sched 1, Sched 1, Sched 0]) init) ! 0)
     = Some (CreateDone \<lparr> ack_job_id = ''job-a'', ack_state = RUNNING,
                           ack_command = build_command settings0 request0, ack_created_at = 1 \<rparr>)
   \<and> creator_pc_of
     (threads (exec settings0
        (submitted (env_exit 0) @ first_block @ try_and_lock @ second_block @ [Sched 0]) init) ! 0)
     = Some (CreateDone \<lparr> ack_job_id = ''job-a'', ack_state = SUCCEEDED,
                           ack_command = build_command settings0 request0, ack_created_at = 1 \<rparr>)"
  by (simp add: run_defs)

text \<open>
  C5, as stated, fails: the failure message does not include the exit code. The process
  of this job exits with code 1; the record ends Failed with exit code 1 and the message
  \<^verbatim>\<open>Job failed\<close>, in which the digit 1 does not occur.
\<close>

theorem failure_message_counterexample:
  "state (heap (exec settings0
       (submitted (env_exit 1) @ first_block @ try_and_lock @ second_block) init) ! 0) = FAILED
   \<and> exit_code (heap (exec settings0
       (submitted (env_exit 1) @ first_block @ try_and_lock @ second_block) init) ! 0) = Some 1
   \<and> message (heap (exec settings0
       (submitted (env_exit 1) @ first_block @ try_and_lock @ second_block) init) ! 0)
       = Some ''Job failed''
   \<and> CHR ''1'' \<notin> set ''Job failed''"
  by (simp add: run_defs)

text \<open>
  C5, amended. For every job whose log file opens and whose process starts and ends with
  an exit code, the record that the finished supervisor leaves has state Succeeded, the
  exit code 0 and the message \<^verbatim>\<open>Job finished successfully\<close> when the code is 0, and
  otherwise state Failed, the actual exit code and the fixed message \<^verbatim>\<open>Job failed\<close>.
\<close>

theorem exit_code_classification:
  assumes "uuids_fresh st es init" and "i < length (threads (exec st es init))"
    and "threads (exec st es init) ! i = Supervisor jid p cmd env RunDone"
    and "open_w env (log_path_of st p jid) = None"
    and "popen env cmd (str_path (up2you_repo_path st)) = None"
    and "wait env = Inr code"
  shows "\<exists>a. jobs (exec st es init) jid = Some a \<and> a < length (heap (exec st es init))
     \<and> state (heap (exec st es init) ! a) = (if code = 0 then SUCCEEDED else FAILED)
     \<and> exit_code (heap (exec st es init) ! a) = Some code
     \<and> message (heap (exec st es init) ! a)
         = Some (if code = 0 then ''Job finished successfully'' else ''Job failed'')"
proof -
  have o: "outcome st jid p cmd env
             = (code, if code = 0 then ''Job finished successfully'' else ''Job failed'')"
    using assms(4-6) by (simp add: outcome_def try_block_def)
  obtain a where a: "jobs (exec st es init) jid = Some a" "a < length (heap (exec st es init))"
    "heap (exec st es init) ! a = record_at st jid p cmd env RunDone"
    using supervisor_okD [OF inv_reachable [OF assms(1)] assms(2,3)] by blast
  have "state (final_record st jid p cmd env) = (if code = 0 then SUCCEEDED else FAILED)"
    "exit_code (final_record st jid p cmd env) = Some code"
    "message (final_record st jid p cmd env)
       = Some (if code = 0 then ''Job finished successfully'' else ''Job failed'')"
    using o by (simp_all add: final_record_def)
  with a show ?thesis by simp
qed

theorem exit_code_classification_witness:
  "uuids_fresh settings0 (submitted (env_exit 0) @ first_block @ try_and_lock @ second_block) init
   \<and> (\<exists>a. jobs (exec settings0
             (submitted (env_exit 0) @ first_block @ try_and_lock @ second_block) init) ''job-a'' = Some a
        \<and> state (heap (exec settings0
             (submitted (env_exit 0) @ first_block @ try_and_lock @ second_block) init) ! a) = SUCCEEDED
        \<and> exit_code (heap (exec settings0
             (submitted (env_exit 0) @ first_block @ try_and_lock @ second_block) init) ! a) = Some 0
        \<and> message (heap (exec settings0
             (submitted (env_exit 0) @ first_block @ try_and_lock @ second_block) init) ! a)
            = Some ''Job finished successfully'')
   \<and> (\<exists>a. jobs (exec settings0
             (submitted (env_exit 7) @ first_block @ try_and_lock @ second_block) init) ''job-a'' = Some a
        \<and> state (heap (exec settings0
             (submitted (env_exit 7) @ first_block @ try_and_lock @ second_block) init) ! a) = FAILED
        \<and> exit_code (heap (exec settings0
             (submitted (env_exit 7) @ first_block @ try_and_lock @ second_block) init) ! a) = Some 7
        \<and> message (heap (exec settings0
             (submitted (env_exit 7) @ first_block @ try_and_lock @ second_block) init) ! a)
            = Some ''Job failed'')"
proof -
  have f: "uuids_fresh settings0 (submitted (env_exit k) @ first_block @ try_and_lock @ second_block) init"
    for k by (simp add: run_defs)
  have t: "threads (exec settings0
             (submitted (env_exit k) @ first_block @ try_and_lock @ second_block) init) ! 1
           = Supervisor ''job-a'' request0 (build_command settings0 request0) (env_exit k) RunDone"
    for k by (simp add: run_defs)
  have l: "1 < length (threads (exec settings0
             (submitted (env_exit k) @ first_block @ try_and_lock @ second_block) init))"
    for k by (simp add: run_defs)
  show ?thesis
    using exit_code_classification [OF f l t, of 0 0] exit_code_classification [OF f l t, of 7 7] f [of 0]
    by auto
qed

section \<open>The store as readers see it\<close>

text \<open>
  C3, as stated, fails: \<^verbatim>\<open>get_status\<close> returns the reference to the stored record, not
  a copy. The reader of this run has received reference 0 from \<^verbatim>\<open>get_status\<close> while
  the record was Queued. After the supervisor has executed line 89, the record behind that
  same reference is Running. When the reader reads the record after the supervisor has
  executed line 112 and before it executes line 113, the response shows state Failed
  without completion time, exit code or message: one field of the transition out of four.
\<close>

theorem get_status_snapshot_counterexample:
  "reader_pc_of (threads (exec settings0
       (submitted (env_exit 1) @ [Query ''job-a'', Sched 2]) init) ! 2) = Some (Get34 (Some 0))
   \<and> state (heap (exec settings0
       (submitted (env_exit 1) @ [Query ''job-a'', Sched 2]) init) ! 0) = QUEUED
   \<and> reader_pc_of (threads (exec settings0
       (submitted (env_exit 1) @ [Query ''job-a'', Sched 2] @ [Sched 1, Sched 1, Sched 1]) init) ! 2)
       = Some (Get34 (Some 0))
   \<and> state (heap (exec settings0
       (submitted (env_exit 1) @ [Query ''job-a'', Sched 2] @ [Sched 1, Sched 1, Sched 1]) init) ! 0)
       = RUNNING
   \<and> (case reader_pc_of (threads (exec settings0
          (submitted (env_exit 1) @ [Query ''job-a'', Sched 2] @ first_block @ try_and_lock
            @ [Sched 1, Sched 2]) init) ! 2) of
        Some (GetDone (Some r)) \<Rightarrow>
          state r = FAILED \<and> completed_at r = None \<and> exit_code r = None \<and> message r = None
      | _ \<Rightarrow> False)"
  by (simp add: run_defs)

text \<open>
  C3, amended. For every stored job id, \<^verbatim>\<open>get_status\<close> waits for the lock and then
  returns the reference to the stored record itself (for an unknown id, \<^verbatim>\<open>None\<close>),
  changing nothing in the store. At the moment of this lookup the record behind the
  reference carries the job's identifier and has every transition made so far applied as
  a whole: it is a complete Queued, Running or terminal record.
\<close>

theorem get_status_returns_stored_reference:
  assumes "uuids_fresh st es init" and "i < length (threads (exec st es init))"
    and "threads (exec st es init) ! i = Reader jid Get53"
  shows "(lock (exec st es init) \<noteq> None \<longrightarrow> step st (Sched i) (exec st es init) = exec st es init)
    \<and> (lock (exec st es init) = None \<longrightarrow>
         threads (step st (Sched i) (exec st es init)) ! i
           = Reader jid (Get34 (jobs (exec st es init) jid))
         \<and> heap (step st (Sched i) (exec st es init)) = heap (exec st es init)
         \<and> jobs (step st (Sched i) (exec st es init)) = jobs (exec st es init)
         \<and> (\<forall>a. jobs (exec st es init) jid = Some a \<longrightarrow>
               a < length (heap (exec st es init))
               \<and> job_id (heap (exec st es init) ! a) = jid
               \<and> whole (heap (exec st es init) ! a)))"
proof -
  let ?c = "exec st es init"
  have I: "inv st ?c" by (rule inv_reachable [OF assms(1)])
  have "\<not> mid_update ?c a" if "lock ?c = None" for a
    using that by (simp add: mid_update_def)
  then show ?thesis
    using assms(2,3) inv_jobsD [OF I] inv_wholeD [OF I] by auto
qed

theorem get_status_returns_stored_reference_witness:
  "uuids_fresh settings0 (submitted (env_exit 0) @ first_block @ [Query ''job-a'']) init
   \<and> lock (exec settings0 (submitted (env_exit 0) @ first_block @ [Query ''job-a'']) init) = None
   \<and> reader_pc_of (threads (step settings0 (Sched 2)
        (exec settings0 (submitted (env_exit 0) @ first_block @ [Query ''job-a'']) init)) ! 2)
       = Some (Get34 (Some 0))
   \<and> whole (heap (exec settings0 (submitted (env_exit 0) @ first_block @ [Query ''job-a'']) init) ! 0)
   \<and> lock (exec settings0 (submitted (env_exit 0) @ [Sched 1, Sched 1, Query ''job-a'']) init) = Some 1
   \<and> step settings0 (Sched 2)
        (exec settings0 (submitted (env_exit 0) @ [Sched 1, Sched 1, Query ''job-a'']) init)
       = exec settings0 (submitted (env_exit 0) @ [Sched 1, Sched 1, Query ''job-a'']) init"
proof -
  let ?A = "submitted (env_exit 0) @ first_block @ [Query ''job-a'']"
  let ?B = "submitted (env_exit 0) @ [Sched 1, Sched 1, Query ''job-a'']"
  have A: "uuids_fresh settings0 ?A init" "2 < length (threads (exec settings0 ?A init))"
    "threads (exec settings0 ?A init) ! 2 = Reader ''job-a'' Get53"
    "lock (exec settings0 ?A init) = None" "jobs (exec settings0 ?A init) ''job-a'' = Some 0"
    by (simp_all add: run_defs)
  have B: "uuids_fresh settings0 ?B init" "2 < length (threads (exec settings0 ?B init))"
    "threads (exec settings0 ?B init) ! 2 = Reader ''job-a'' Get53"
    "lock (exec settings0 ?B init) = Some 1"
    by (simp_all add: run_defs)
  show ?thesis
    using get_status_returns_stored_reference [OF A(1,2,3)]
      get_status_returns_stored_reference [OF B(1,2,3)] A B
    by simp
qed

text \<open>
  C7, as stated, fails for a record seen through a reference that \<^verbatim>\<open>get_status\<close> has
  returned. The supervisor of this run assigns the state in line 112 and the exit code in
  line 114; a reader that reads the record in between gets a response with state
  Succeeded and no exit code, and that is also what the store holds at that moment.
\<close>

theorem exit_code_presence_counterexample:
  "(case reader_pc_of (threads (exec settings0
          (submitted (env_exit 0) @ [Query ''job-a'', Sched 2] @ first_block @ try_and_lock
            @ [Sched 1, Sched 1, Sched 2]) init) ! 2) of
        Some (GetDone (Some r)) \<Rightarrow> state r = SUCCEEDED \<and> exit_code r = None
      | _ \<Rightarrow> False)
   \<and> state (heap (exec settings0
          (submitted (env_exit 0) @ [Query ''job-a'', Sched 2] @ first_block @ try_and_lock
            @ [Sched 1, Sched 1, Sched 2]) init) ! 0) = SUCCEEDED
   \<and> exit_code (heap (exec settings0
          (submitted (env_exit 0) @ [Query ''job-a'', Sched 2] @ first_block @ try_and_lock
            @ [Sched 1, Sched 1, Sched 2]) init) ! 0) = None"
  by (simp add: run_defs)

text \<open>
  C7, amended. In every record of the store that is not in the middle of a locked update
  by its supervisor, the exit code is absent if and only if the state is Queued or
  Running. In particular this holds for every record in the dictionary whenever the lock
  is free, which is when \<^verbatim>\<open>get_status\<close> looks a record up.
\<close>

theorem exit_code_absent_iff_not_terminal:
  assumes "uuids_fresh st es init"
  shows "(\<forall>a < length (heap (exec st es init)). \<not> mid_update (exec st es init) a \<longrightarrow>
            (exit_code (heap (exec st es init) ! a) = None)
            = (state (heap (exec st es init) ! a) = QUEUED
               \<or> state (heap (exec st es init) ! a) = RUNNING))
     \<and> (lock (exec st es init) = None \<longrightarrow>
          (\<forall>jid a. jobs (exec st es init) jid = Some a \<longrightarrow>
            (exit_code (heap (exec st es init) ! a) = None)
            = (state (heap (exec st es init) ! a) = QUEUED
               \<or> state (heap (exec st es init) ! a) = RUNNING)))"
proof -
  let ?c = "exec st es init"
  have I: "inv st ?c" by (rule inv_reachable [OF assms])
  have w: "(exit_code r = None) = (state r = QUEUED \<or> state r = RUNNING)" if "whole r" for r
    using that by (auto simp: whole_def)
  have 1: "\<forall>a < length (heap ?c). \<not> mid_update ?c a \<longrightarrow>
            (exit_code (heap ?c ! a) = None) = (state (heap ?c ! a) = QUEUED \<or> state (heap ?c ! a) = RUNNING)"
    using inv_wholeD [OF I] w by blast
  have "\<not> mid_update ?c a" if "lock ?c = None" for a
    using that by (simp add: mid_update_def)
  then have 2: "lock ?c = None \<longrightarrow>
          (\<forall>jid a. jobs ?c jid = Some a \<longrightarrow>
            (exit_code (heap ?c ! a) = None) = (state (heap ?c ! a) = QUEUED \<or> state (heap ?c ! a) = RUNNING))"
    using inv_jobsD [OF I] 1 by blast
  from 1 2 show ?thesis by blast
qed

theorem exit_code_absent_iff_not_terminal_witness:
  "uuids_fresh settings0 (submitted (env_exit 0) @ first_block @ try_and_lock @ second_block) init
   \<and> lock (exec settings0 (submitted (env_exit 0) @ first_block @ try_and_lock @ second_block) init) = None
   \<and> jobs (exec settings0 (submitted (env_exit 0) @ first_block @ try_and_lock @ second_block) init)
        ''job-a'' = Some 0
   \<and> \<not> mid_update (exec settings0
          (submitted (env_exit 0) @ first_block @ try_and_lock @ second_block) init) 0
   \<and> exit_code (heap (exec settings0
          (submitted (env_exit 0) @ first_block @ try_and_lock @ second_block) init) ! 0) \<noteq> None
   \<and> state (heap (exec settings0
          (submitted (env_exit 0) @ first_block @ try_and_lock @ second_block) init) ! 0) \<noteq> QUEUED
   \<and> state (heap (exec settings0
          (submitted (env_exit 0) @ first_block @ try_and_lock @ second_block) init) ! 0) \<noteq> RUNNING"
proof -
  let ?A = "submitted (env_exit 0) @ first_block @ try_and_lock @ second_block"
  have A: "uuids_fresh settings0 ?A init" "lock (exec settings0 ?A init) = None"
    "jobs (exec settings0 ?A init) ''job-a'' = Some 0"
    "0 < length (heap (exec settings0 ?A init))"
    "exit_code (heap (exec settings0 ?A init) ! 0) = Some 0"
    by (simp_all add: run_defs)
  have m: "\<not> mid_update (exec settings0 ?A init) 0"
    using A(2) by (simp add: mid_update_def)
  show ?thesis
    using exit_code_absent_iff_not_terminal [OF A(1)] A m by auto
qed

text \<open>
  C6, as stated, fails in its last part: the supervisor assigns the terminal state first
  (line 112) and the completion time, exit code and message after it. In this run the
  record is Succeeded after line 112, and the next step changes it.
\<close>

theorem terminal_record_changes_counterexample:
  "terminal (state (heap (exec settings0
       (submitted (env_exit 0) @ first_block @ try_and_lock @ [Sched 1]) init) ! 0))
   \<and> completed_at (heap (exec settings0
       (submitted (env_exit 0) @ first_block @ try_and_lock @ [Sched 1]) init) ! 0) = None
   \<and> completed_at (heap (step settings0 (Sched 1) (exec settings0
       (submitted (env_exit 0) @ first_block @ try_and_lock @ [Sched 1]) init)) ! 0) = Some 3
   \<and> heap (step settings0 (Sched 1) (exec settings0
       (submitted (env_exit 0) @ first_block @ try_and_lock @ [Sched 1]) init)) ! 0
     \<noteq> heap (exec settings0
       (submitted (env_exit 0) @ first_block @ try_and_lock @ [Sched 1]) init) ! 0"
  by (simp add: run_defs)

text \<open>
  C6, amended. For every job record and every step of the system, the state never moves
  to an earlier state, never goes from Queued to a terminal state in one step, and never
  changes once it is Succeeded or Failed. Once a record is terminal and its supervisor
  has left the locked block of lines 110 to 116, no field of that record is ever changed
  again, whatever the system does afterwards.
\<close>

theorem record_state_only_advances:
  assumes "uuids_fresh st (es @ es') init" and "a < length (heap (exec st es init))"
  shows "rank (state (heap (exec st es init) ! a))
           \<le> rank (state (heap (step st e (exec st es init)) ! a))
    \<and> (state (heap (exec st es init) ! a) = QUEUED \<longrightarrow>
         state (heap (step st e (exec st es init)) ! a) = QUEUED
         \<or> state (heap (step st e (exec st es init)) ! a) = RUNNING)
    \<and> (terminal (state (heap (exec st es init) ! a)) \<longrightarrow>
         state (heap (step st e (exec st es init)) ! a) = state (heap (exec st es init) ! a))
    \<and> (terminal (state (heap (exec st es init) ! a)) \<and> \<not> mid_update (exec st es init) a \<longrightarrow>
         heap (exec st es' (exec st es init)) ! a = heap (exec st es init) ! a)"
proof -
  let ?c = "exec st es init"
  have f: "uuids_fresh st es init" "uuids_fresh st es' ?c"
    using assms(1) by (simp_all add: uuids_fresh_append)
  have I: "inv st ?c" by (rule inv_reachable [OF f(1)])
  have "state_advance (heap ?c ! a) (heap (step st e ?c) ! a)"
    using step_record [OF I assms(2)] by simp
  moreover have "terminal (state (heap ?c ! a)) \<and> \<not> mid_update ?c a \<longrightarrow>
         heap (exec st es' ?c) ! a = heap ?c ! a"
    using settled_exec [OF I f(2) assms(2)] by simp
  ultimately show ?thesis by (simp add: state_advance_def)
qed

theorem record_state_only_advances_witness:
  "uuids_fresh settings0
     ((submitted (env_exit 0) @ first_block @ try_and_lock @ second_block)
      @ [Sched 1, Query ''job-a'', Sched 2, Sched 2, Sched 0]) init
   \<and> terminal (state (heap (exec settings0
        (submitted (env_exit 0) @ first_block @ try_and_lock @ second_block) init) ! 0))
   \<and> \<not> mid_update (exec settings0
        (submitted (env_exit 0) @ first_block @ try_and_lock @ second_block) init) 0
   \<and> heap (exec settings0 [Sched 1, Query ''job-a'', Sched 2, Sched 2, Sched 0]
        (exec settings0 (submitted (env_exit 0) @ first_block @ try_and_lock @ second_block) init)) ! 0
     = heap (exec settings0 (submitted (env_exit 0) @ first_block @ try_and_lock @ second_block) init) ! 0
   \<and> state (heap (exec settings0 (submitted (env_exit 0) @ [Sched 1, Sched 1]) init) ! 0) = QUEUED
   \<and> state (heap (step settings0 (Sched 1)
        (exec settings0 (submitted (env_exit 0) @ [Sched 1, Sched 1]) init)) ! 0) = RUNNING"
proof -
  let ?A = "submitted (env_exit 0) @ first_block @ try_and_lock @ second_block"
  let ?A' = "[Sched 1, Query ''job-a'', Sched 2, Sched 2, Sched 0]"
  let ?B = "submitted (env_exit 0) @ [Sched 1, Sched 1]"
  have A: "uuids_fresh settings0 (?A @ ?A') init" "0 < length (heap (exec settings0 ?A init))"
    "terminal (state (heap (exec settings0 ?A init) ! 0))" "lock (exec settings0 ?A init) = None"
    by (simp_all add: run_defs)
  have m: "\<not> mid_update (exec settings0 ?A init) 0"
    using A(4) by (simp add: mid_update_def)
  have B: "uuids_fresh settings0 (?B @ []) init" "0 < length (heap (exec settings0 ?B init))"
    "state (heap (exec settings0 ?B init) ! 0) = QUEUED"
    "state (heap (step settings0 (Sched 1) (exec settings0 ?B init)) ! 0) = RUNNING"
    by (simp_all add: run_defs)
  show ?thesis
    using record_state_only_advances [OF A(1,2), of "Sched 1"]
      record_state_only_advances [OF B(1,2), of "Sched 1"] A m B
    by simp
qed

end
